theory Spec2Isabelle
  imports Complex_Main
begin

section \<open>Dense arrays\<close>

text \<open>
  The notebook works on NumPy arrays of floats. A one-dimensional array is a list of
  reals, a two-dimensional array is the list of its rows. Arithmetic is exact (real
  numbers); the two places where IEEE arithmetic does something a real number cannot
  (a division by zero giving \<open>inf\<close> or \<open>nan\<close>) are written out below. Every
  exception the array operations raise is a value of \<open>error\<close>.
\<close>

text \<open>
  A two-dimensional array with no rows or no columns is not represented faithfully: the
  list of the rows of a \<open>0 \<times> m\<close> array has forgotten \<open>m\<close>, so a product with it
  is refused here where NumPy returns an empty or a zero array. Such arrays arise in the
  notebook only from empty data or from an empty slice \<open>U[:, :r]\<close> or
  \<open>U[:, r:r+q]\<close> (\<open>r = 0\<close>, \<open>q = 0\<close>, or data with at most \<open>r\<close> rows or
  columns). The properties below that speak of array values are stated for arrays of the
  data model's shapes, in which no axis is empty.
\<close>

type_synonym vec = "real list"
type_synonym mat = "real list list"

datatype error = ValueError | LinAlgError | IndexError

definition bindE :: "error + 'a \<Rightarrow> ('a \<Rightarrow> error + 'b) \<Rightarrow> error + 'b" where
  "bindE m f = (case m of Inl e \<Rightarrow> Inl e | Inr x \<Rightarrow> f x)"

definition nrows :: "mat \<Rightarrow> nat" where
  "nrows A = length A"

definition ncols :: "mat \<Rightarrow> nat" where
  "ncols A = (case A of [] \<Rightarrow> 0 | row # _ \<Rightarrow> length row)"

definition is_mat :: "nat \<Rightarrow> nat \<Rightarrow> mat \<Rightarrow> bool" where
  "is_mat n m A \<longleftrightarrow> length A = n \<and> (\<forall>row \<in> set A. length row = m)"

text \<open>Broadcasting of one axis: a length-1 axis is stretched to the other length.\<close>

definition compatible :: "nat \<Rightarrow> nat \<Rightarrow> bool" where
  "compatible a b \<longleftrightarrow> a = b \<or> a = 1 \<or> b = 1"

definition bdim :: "nat \<Rightarrow> nat \<Rightarrow> nat" where
  "bdim a b = (if a = 1 then b else a)"

definition bcast :: "nat \<Rightarrow> 'a list \<Rightarrow> 'a list" where
  "bcast n xs = (if length xs = 1 \<and> n \<noteq> 1 then replicate n (hd xs) else xs)"

text \<open>\<open>a - b\<close>, \<open>a + b\<close> on one-dimensional arrays.\<close>

definition elementwise1 :: "(real \<Rightarrow> real \<Rightarrow> real) \<Rightarrow> vec \<Rightarrow> vec \<Rightarrow> error + vec" where
  "elementwise1 f a b =
     (if compatible (length a) (length b)
      then let n = bdim (length a) (length b) in Inr (map2 f (bcast n a) (bcast n b))
      else Inl ValueError)"

text \<open>\<open>A - B\<close>, \<open>A + B\<close> on two-dimensional arrays.\<close>

definition elementwise :: "(real \<Rightarrow> real \<Rightarrow> real) \<Rightarrow> mat \<Rightarrow> mat \<Rightarrow> error + mat" where
  "elementwise f A B =
     (if compatible (nrows A) (nrows B) \<and> compatible (ncols A) (ncols B)
      then let n = bdim (nrows A) (nrows B); m = bdim (ncols A) (ncols B) in
        Inr (map2 (\<lambda>ra rb. map2 f (bcast m ra) (bcast m rb)) (bcast n A) (bcast n B))
      else Inl ValueError)"

definition dot :: "vec \<Rightarrow> vec \<Rightarrow> real" where
  "dot u v = sum_list (map2 (*) u v)"

definition col :: "mat \<Rightarrow> nat \<Rightarrow> vec" where
  "col A j = map (\<lambda>row. row ! j) A"

definition mat_mul :: "mat \<Rightarrow> mat \<Rightarrow> mat" where
  "mat_mul A B = map (\<lambda>row. map (\<lambda>j. dot row (col B j)) [0..<ncols B]) A"

text \<open>\<open>A @ B\<close> for two-dimensional \<open>A\<close> and \<open>B\<close>.\<close>

definition matmul :: "mat \<Rightarrow> mat \<Rightarrow> error + mat" where
  "matmul A B = (if ncols A = nrows B then Inr (mat_mul A B) else Inl ValueError)"

text \<open>\<open>A @ x\<close> for two-dimensional \<open>A\<close> and one-dimensional \<open>x\<close>.\<close>

definition matvec :: "mat \<Rightarrow> vec \<Rightarrow> error + vec" where
  "matvec A x = (if ncols A = length x then Inr (map (\<lambda>row. dot row x) A) else Inl ValueError)"

text \<open>\<open>A.T\<close>\<close>

definition transpose_mat :: "mat \<Rightarrow> mat" where
  "transpose_mat A = map (col A) [0..<ncols A]"

text \<open>\<open>A[:, a:b]\<close> for \<open>0 \<le> a\<close>, \<open>0 \<le> b\<close>: a slice never raises, it is clipped.\<close>

definition cols_slice :: "nat \<Rightarrow> nat \<Rightarrow> mat \<Rightarrow> mat" where
  "cols_slice a b A = map (\<lambda>row. drop a (take b row)) A"

text \<open>\<open>A[:, j]\<close> read, and \<open>A[:, j] = v\<close> written in place.\<close>

definition get_col :: "mat \<Rightarrow> nat \<Rightarrow> error + vec" where
  "get_col A j = (if j < ncols A then Inr (col A j) else Inl IndexError)"

definition set_col :: "mat \<Rightarrow> nat \<Rightarrow> vec \<Rightarrow> error + mat" where
  "set_col A j v =
     (if \<not> j < ncols A then Inl IndexError
      else if length v = nrows A \<or> length v = 1
      then Inr (map2 (\<lambda>row x. row[j := x]) A (bcast (nrows A) v))
      else Inl ValueError)"

text \<open>\<open>np.concatenate(arrays)\<close> along axis 0, for two- and one-dimensional arrays.\<close>

definition concatenate :: "mat list \<Rightarrow> error + mat" where
  "concatenate As =
     (case As of [] \<Rightarrow> Inl ValueError
      | A # _ \<Rightarrow> if \<forall>B \<in> set As. ncols B = ncols A then Inr (concat As) else Inl ValueError)"

definition concatenate1 :: "vec list \<Rightarrow> error + vec" where
  "concatenate1 vs = (case vs of [] \<Rightarrow> Inl ValueError | _ # _ \<Rightarrow> Inr (concat vs))"

text \<open>\<open>np.identity(n)\<close>; a negative dimension raises.\<close>

definition identity_mat :: "nat \<Rightarrow> mat" where
  "identity_mat n = map (\<lambda>i. map (\<lambda>j. if i = j then 1 else 0) [0..<n]) [0..<n]"

definition np_identity :: "int \<Rightarrow> error + mat" where
  "np_identity n = (if n < 0 then Inl ValueError else Inr (identity_mat (nat n)))"

definition smult :: "real \<Rightarrow> mat \<Rightarrow> mat" where
  "smult c A = map (map ((*) c)) A"

text \<open>\<open>np.linalg.norm(A, 'fro')\<close>\<close>

definition sumsq :: "mat \<Rightarrow> real" where
  "sumsq A = sum_list (map (\<lambda>row. sum_list (map (\<lambda>x. x\<^sup>2) row)) A)"

definition frobenius_norm :: "mat \<Rightarrow> real" where
  "frobenius_norm A = sqrt (sumsq A)"

text \<open>
  A NumPy float that may have left the reals: dividing by zero gives \<open>inf\<close> or
  \<open>nan\<close> and a warning, not an exception. Both are \<open>NonFinite\<close> here: every
  difference with one of them is \<open>inf\<close>, \<open>-inf\<close> or \<open>nan\<close>, its absolute value is
  \<open>inf\<close> or \<open>nan\<close>, and neither is below a real tolerance.
\<close>

datatype npfloat = Finite real | NonFinite

definition fdiv :: "real \<Rightarrow> real \<Rightarrow> npfloat" where
  "fdiv a b = (if b = 0 then NonFinite else Finite (a / b))"

fun fsub :: "npfloat \<Rightarrow> npfloat \<Rightarrow> npfloat" where
  "fsub (Finite a) (Finite b) = Finite (a - b)"
| "fsub _ _ = NonFinite"

fun fabs :: "npfloat \<Rightarrow> npfloat" where
  "fabs (Finite a) = Finite \<bar>a\<bar>"
| "fabs NonFinite = NonFinite"

fun fless :: "npfloat \<Rightarrow> real \<Rightarrow> bool" where
  "fless (Finite a) t \<longleftrightarrow> a < t"
| "fless NonFinite t \<longleftrightarrow> False"

section \<open>Model parameters and the two function handles\<close>

text \<open>
  The notebook's cells read and write global variables. The ones that are set once
  (the data and the model parameters) are the record \<open>env\<close>; the ones the cells
  update are the record \<open>state\<close>, together with what has been printed so far.
\<close>

record env =
  S :: mat
  Sref :: mat
  sref :: vec
  num_snapshots :: nat
  p :: nat
  r :: nat
  q :: nat
  tol :: real
  gamma :: real
  max_iter :: nat

datatype event =
    ReconstructionError npfloat
  | Starting
  | Iteration nat npfloat npfloat
  | ConvergenceActive

record state =
  U :: mat
  ss :: vec
  Vr :: mat
  Shat :: mat
  Vbar :: mat
  Poly :: mat
  Xi :: mat
  nrg_old :: npfloat
  Gamma_POD :: mat
  Gamma_MPOD :: mat
  Gamma_MAM :: mat
  out :: "event list"

text \<open>
  \<open>polynomial_form(x)\<close> is \<open>[x**degree for degree in range(2, p+1)]\<close>: the list of the
  elementwise powers, for a matrix and for a vector of reduced coordinates.
\<close>

definition polynomial_form :: "nat \<Rightarrow> mat \<Rightarrow> mat list" where
  "polynomial_form pdeg x = map (\<lambda>degree. map (map (\<lambda>v. v ^ degree)) x) [2..<pdeg + 1]"

definition polynomial_form1 :: "nat \<Rightarrow> vec \<Rightarrow> vec list" where
  "polynomial_form1 pdeg x = map (\<lambda>degree. map (\<lambda>v. v ^ degree) x) [2..<pdeg + 1]"

text \<open>\<open>Poly = np.concatenate(polynomial_form(Shat), axis=0)\<close>\<close>

definition polynomial_features :: "nat \<Rightarrow> mat \<Rightarrow> error + mat" where
  "polynomial_features pdeg x = concatenate (polynomial_form pdeg x)"

definition relative_error :: "env \<Rightarrow> mat \<Rightarrow> mat \<Rightarrow> error + npfloat" where
  "relative_error E S_exact S_reconstructed =
     bindE (elementwise (-) S_exact S_reconstructed) (\<lambda>num.
     bindE (elementwise (-) S_exact (Sref E)) (\<lambda>den.
     Inr (fdiv (frobenius_norm num) (frobenius_norm den))))"

section \<open>The library routines\<close>

text \<open>
  \<open>np.linalg.svd(M, full_matrices=False)\<close>, \<open>np.linalg.inv(A)\<close> and
  \<open>opt.least_squares(fun, x0, ftol=...).x\<close> are NumPy's and SciPy's, not the
  notebook's: they are parameters of the model. The first two raise
  \<open>LinAlgError\<close>, the third raises \<open>ValueError\<close>, and an exception raised by the
  objective function passes through \<open>least_squares\<close>.
\<close>

record numlib =
  linalg_svd :: "mat \<Rightarrow> error + (mat \<times> vec \<times> mat)"
  linalg_inv :: "mat \<Rightarrow> error + mat"
  opt_least_squares :: "(vec \<Rightarrow> error + vec) \<Rightarrow> vec \<Rightarrow> real \<Rightarrow> error + vec"

section \<open>Cell 1: traditional POD\<close>

definition pod_cell :: "numlib \<Rightarrow> env \<Rightarrow> state \<Rightarrow> error + state" where
  "pod_cell L E st =
     bindE (elementwise (-) (S E) (Sref E)) (\<lambda>C.
     bindE (linalg_svd L C) (\<lambda>(U', ss', _).
     let Vr' = cols_slice 0 (r E) U' in
     bindE (elementwise (-) (S E) (Sref E)) (\<lambda>C'.
     bindE (matmul (transpose_mat Vr') C') (\<lambda>Shat'.
     bindE (matmul Vr' Shat') (\<lambda>VS.
     bindE (elementwise (+) (Sref E) VS) (\<lambda>G.
     bindE (relative_error E (S E) G) (\<lambda>err.
     Inr (st\<lparr>U := U', ss := ss', Vr := Vr', Shat := Shat', Gamma_POD := G,
               out := out st @ [ReconstructionError err]\<rparr>))))))))"

section \<open>Cell 2: POD-based nonlinear manifold\<close>

text \<open>\<open>Proj_error = S - Sref - (Vr @ Shat)\<close>, the same line in cell 2 and in step 2.\<close>

definition proj_error :: "env \<Rightarrow> mat \<Rightarrow> mat \<Rightarrow> error + mat" where
  "proj_error E V Sh =
     bindE (elementwise (-) (S E) (Sref E)) (\<lambda>C.
     bindE (matmul V Sh) (\<lambda>VS.
     elementwise (-) C VS))"

text \<open>\<open>Poly @ Poly.T + gamma * np.identity((p - 1)*r)\<close>\<close>

definition regularised_gram :: "env \<Rightarrow> mat \<Rightarrow> error + mat" where
  "regularised_gram E Po =
     bindE (matmul Po (transpose_mat Po)) (\<lambda>PPt.
     bindE (np_identity ((int (p E) - 1) * int (r E))) (\<lambda>I.
     elementwise (+) PPt (smult (gamma E) I)))"

text \<open>
  Cell 2 evaluates \<open>Vbar.T @ Proj_error @ Poly.T @ np.linalg.inv(...)\<close> from left to
  right: the two products first, then the inverse, then the last product.
\<close>

definition mpod_Xi :: "numlib \<Rightarrow> env \<Rightarrow> mat \<Rightarrow> mat \<Rightarrow> mat \<Rightarrow> error + mat" where
  "mpod_Xi L E Vb PE Po =
     bindE (matmul (transpose_mat Vb) PE) (\<lambda>t1.
     bindE (matmul t1 (transpose_mat Po)) (\<lambda>t2.
     bindE (regularised_gram E Po) (\<lambda>A.
     bindE (linalg_inv L A) (\<lambda>Ainv.
     matmul t2 Ainv))))"

text \<open>\<open>Sref + (Vr @ Shat) + (Vbar @ Xi @ Poly)\<close>, for \<open>Gamma_MPOD\<close> and \<open>Gamma_MAM\<close>.\<close>

definition manifold_reconstruction :: "env \<Rightarrow> state \<Rightarrow> error + mat" where
  "manifold_reconstruction E st =
     bindE (matmul (Vr st) (Shat st)) (\<lambda>VS.
     bindE (elementwise (+) (Sref E) VS) (\<lambda>G1.
     bindE (matmul (Vbar st) (Xi st)) (\<lambda>VX.
     bindE (matmul VX (Poly st)) (\<lambda>VXP.
     elementwise (+) G1 VXP))))"

definition mpod_cell :: "numlib \<Rightarrow> env \<Rightarrow> state \<Rightarrow> error + state" where
  "mpod_cell L E st =
     (let Vbar' = cols_slice (r E) (r E + q E) (U st) in
      bindE (proj_error E (Vr st) (Shat st)) (\<lambda>PE.
      bindE (polynomial_features (p E) (Shat st)) (\<lambda>Poly'.
      bindE (mpod_Xi L E Vbar' PE Poly') (\<lambda>Xi'.
      let st' = st\<lparr>Vbar := Vbar', Poly := Poly', Xi := Xi'\<rparr> in
      bindE (manifold_reconstruction E st') (\<lambda>G.
      bindE (relative_error E (S E) G) (\<lambda>err.
      Inr (st'\<lparr>Gamma_MPOD := G, out := out st' @ [ReconstructionError err]\<rparr>)))))))"

section \<open>Cell 3: alternating minimisation\<close>

text \<open>
  \<open>representation_learning_obj(x)\<close> reads the globals \<open>S\<close>, \<open>snapshot\<close>, \<open>sref\<close>,
  \<open>Vr\<close>, \<open>Vbar\<close> and \<open>Xi\<close> at the time it is called.
\<close>

definition representation_learning_obj :: "env \<Rightarrow> state \<Rightarrow> nat \<Rightarrow> vec \<Rightarrow> error + vec" where
  "representation_learning_obj E st snapshot x =
     bindE (get_col (S E) snapshot) (\<lambda>sj.
     bindE (elementwise1 (-) sj (sref E)) (\<lambda>d0.
     bindE (matvec (Vr st) x) (\<lambda>vx.
     bindE (elementwise1 (-) d0 vx) (\<lambda>d1.
     bindE (matmul (Vbar st) (Xi st)) (\<lambda>VX.
     bindE (concatenate1 (polynomial_form1 (p E) x)) (\<lambda>g.
     bindE (matvec VX g) (\<lambda>vg.
     elementwise1 (-) d1 vg)))))))"

text \<open>Step 1: \<open>np.concatenate([Shat, Xi @ Poly])\<close>, the target of the Procrustes problem.\<close>

definition procrustes_target :: "state \<Rightarrow> error + mat" where
  "procrustes_target st =
     bindE (matmul (Xi st) (Poly st)) (\<lambda>XP. concatenate [Shat st, XP])"

definition procrustes_omega :: "numlib \<Rightarrow> env \<Rightarrow> state \<Rightarrow> error + mat" where
  "procrustes_omega L E st =
     bindE (elementwise (-) (S E) (Sref E)) (\<lambda>C.
     bindE (procrustes_target st) (\<lambda>T.
     bindE (matmul C (transpose_mat T)) (\<lambda>M.
     bindE (linalg_svd L M) (\<lambda>(Um, _, Vm).
     matmul Um Vm))))"

definition step1 :: "numlib \<Rightarrow> env \<Rightarrow> state \<Rightarrow> error + state" where
  "step1 L E st =
     bindE (procrustes_omega L E st) (\<lambda>Omega.
     Inr (st\<lparr>Vr := cols_slice 0 (r E) Omega,
              Vbar := cols_slice (r E) (r E + q E) Omega\<rparr>))"

text \<open>Step 2 computes \<open>rhs\<close>, the inverse, first and the three products after it.\<close>

definition step2_Xi :: "numlib \<Rightarrow> env \<Rightarrow> mat \<Rightarrow> mat \<Rightarrow> mat \<Rightarrow> error + mat" where
  "step2_Xi L E Vb PE Po =
     bindE (regularised_gram E Po) (\<lambda>A.
     bindE (linalg_inv L A) (\<lambda>rhs.
     bindE (matmul (transpose_mat Vb) PE) (\<lambda>t1.
     bindE (matmul t1 (transpose_mat Po)) (\<lambda>t2.
     matmul t2 rhs))))"

definition step2 :: "numlib \<Rightarrow> env \<Rightarrow> state \<Rightarrow> error + state" where
  "step2 L E st =
     bindE (proj_error E (Vr st) (Shat st)) (\<lambda>PE.
     bindE (step2_Xi L E (Vbar st) PE (Poly st)) (\<lambda>Xi'.
     Inr (st\<lparr>Xi := Xi'\<rparr>)))"

text \<open>
  Step 3: one \<open>least_squares\<close> call per snapshot, started at the snapshot's current
  column of \<open>Shat\<close> and written back into that column; then \<open>Poly\<close> is rebuilt.
\<close>

fun step3_snapshots :: "numlib \<Rightarrow> env \<Rightarrow> state \<Rightarrow> nat list \<Rightarrow> mat \<Rightarrow> error + mat" where
  "step3_snapshots L E st [] Sh = Inr Sh"
| "step3_snapshots L E st (snapshot # rest) Sh =
     (case get_col Sh snapshot of Inl e \<Rightarrow> Inl e | Inr x0 \<Rightarrow>
      case opt_least_squares L (representation_learning_obj E st snapshot) x0 (1 / 10 ^ 9) of
        Inl e \<Rightarrow> Inl e
      | Inr x \<Rightarrow>
      case set_col Sh snapshot x of Inl e \<Rightarrow> Inl e | Inr Sh' \<Rightarrow>
      step3_snapshots L E st rest Sh')"

definition step3 :: "numlib \<Rightarrow> env \<Rightarrow> state \<Rightarrow> error + state" where
  "step3 L E st =
     bindE (step3_snapshots L E st [0..<num_snapshots E] (Shat st)) (\<lambda>Shat'.
     bindE (polynomial_features (p E) Shat') (\<lambda>Poly'.
     Inr (st\<lparr>Shat := Shat', Poly := Poly'\<rparr>)))"

text \<open>
  \<open>np.linalg.norm(Vr @ Shat + (Vbar @ Xi @ Poly), 'fro')**2 /
  np.linalg.norm(S - Sref, 'fro')**2\<close>
\<close>

definition energy :: "env \<Rightarrow> state \<Rightarrow> error + npfloat" where
  "energy E st =
     bindE (matmul (Vr st) (Shat st)) (\<lambda>VS.
     bindE (matmul (Vbar st) (Xi st)) (\<lambda>VX.
     bindE (matmul VX (Poly st)) (\<lambda>VXP.
     bindE (elementwise (+) VS VXP) (\<lambda>R.
     bindE (elementwise (-) (S E) (Sref E)) (\<lambda>C.
     Inr (fdiv ((frobenius_norm R)\<^sup>2) ((frobenius_norm C)\<^sup>2)))))))"

text \<open>
  The convergence test at the end of the loop body. The result says whether the body
  left the loop with \<open>break\<close>.
\<close>

definition convergence_check :: "env \<Rightarrow> nat \<Rightarrow> state \<Rightarrow> error + (bool \<times> state)" where
  "convergence_check E niter st =
     bindE (energy E st) (\<lambda>e.
     let diff = fabs (fsub e (nrg_old st));
         st' = st\<lparr>out := out st @ [Iteration (niter + 1) e diff]\<rparr>
     in if fless diff (tol E)
        then Inr (True, st'\<lparr>out := out st' @ [ConvergenceActive]\<rparr>)
        else Inr (False, st'\<lparr>nrg_old := e\<rparr>))"

definition am_body :: "numlib \<Rightarrow> env \<Rightarrow> nat \<Rightarrow> state \<Rightarrow> error + (bool \<times> state)" where
  "am_body L E niter st =
     bindE (step1 L E st) (\<lambda>st1.
     bindE (step2 L E st1) (\<lambda>st2.
     bindE (step3 L E st2) (\<lambda>st3.
     convergence_check E niter st3)))"

text \<open>\<open>for niter in range(max_iter): ...\<close>, over the values of \<open>niter\<close> still to come.\<close>

fun am_for :: "numlib \<Rightarrow> env \<Rightarrow> nat list \<Rightarrow> state \<Rightarrow> error + state" where
  "am_for L E [] st = Inr st"
| "am_for L E (niter # rest) st =
     (case am_body L E niter st of
        Inl e \<Rightarrow> Inl e
      | Inr (brk, st') \<Rightarrow> if brk then Inr st' else am_for L E rest st')"

text \<open>From \<open>nrg_old = 0\<close> to the end of the \<open>for\<close> loop.\<close>

definition am_loop :: "numlib \<Rightarrow> env \<Rightarrow> state \<Rightarrow> error + state" where
  "am_loop L E st =
     am_for L E [0..<max_iter E] (st\<lparr>nrg_old := Finite 0, out := out st @ [Starting]\<rparr>)"

definition am_cell :: "numlib \<Rightarrow> env \<Rightarrow> state \<Rightarrow> error + state" where
  "am_cell L E st =
     bindE (am_loop L E st) (\<lambda>st1.
     bindE (manifold_reconstruction E st1) (\<lambda>G.
     bindE (relative_error E (S E) G) (\<lambda>err.
     Inr (st1\<lparr>Gamma_MAM := G, out := out st1 @ [ReconstructionError err]\<rparr>))))"

section \<open>The notebook, cell after cell\<close>

text \<open>Before the first cell none of the updated globals is bound.\<close>

definition unbound :: state where
  "unbound = \<lparr>U = [], ss = [], Vr = [], Shat = [], Vbar = [], Poly = [], Xi = [],
     nrg_old = Finite 0, Gamma_POD = [], Gamma_MPOD = [], Gamma_MAM = [], out = []\<rparr>"

definition notebook :: "numlib \<Rightarrow> env \<Rightarrow> error + state" where
  "notebook L E =
     bindE (pod_cell L E unbound) (\<lambda>st1.
     bindE (mpod_cell L E st1) (\<lambda>st2.
     am_cell L E st2))"

section \<open>Notions the properties are stated with\<close>

definition zero_mat :: "nat \<Rightarrow> nat \<Rightarrow> mat" where
  "zero_mat n m = replicate n (replicate m 0)"

definition diag_mat :: "vec \<Rightarrow> mat" where
  "diag_mat sv =
     map (\<lambda>i. map (\<lambda>j. if i = j then sv ! i else 0) [0..<length sv]) [0..<length sv]"

text \<open>The columns of \<open>A\<close> are orthonormal: \<open>A\<^sup>T A = I\<close>.\<close>

definition orthonormal_cols :: "mat \<Rightarrow> bool" where
  "orthonormal_cols A \<longleftrightarrow> mat_mul (transpose_mat A) A = identity_mat (ncols A)"

text \<open>
  What \<open>np.linalg.svd(M, full_matrices=False)\<close> promises of its result
  \<open>(Um, sv, Vm)\<close> in exact arithmetic, for an \<open>n \<times> m\<close> matrix \<open>M\<close> and
  \<open>d = min n m\<close>: \<open>Um\<close> is \<open>n \<times> d\<close> with orthonormal columns, \<open>Vm\<close> is
  \<open>d \<times> m\<close> with orthonormal rows (so it is orthogonal when it is square), the
  singular values are not negative, and \<open>M = Um diag(sv) Vm\<close>.
\<close>

definition thin_svd :: "mat \<Rightarrow> mat \<Rightarrow> vec \<Rightarrow> mat \<Rightarrow> bool" where
  "thin_svd M Um sv Vm \<longleftrightarrow>
     (let n = nrows M; m = ncols M; d = min n m in
      is_mat n d Um \<and> length sv = d \<and> is_mat d m Vm \<and> (\<forall>x \<in> set sv. 0 \<le> x) \<and>
      mat_mul (transpose_mat Um) Um = identity_mat d \<and>
      mat_mul Vm (transpose_mat Vm) = identity_mat d \<and>
      (d = m \<longrightarrow> mat_mul (transpose_mat Vm) Vm = identity_mat m) \<and>
      mat_mul (mat_mul Um (diag_mat sv)) Vm = M)"

definition svd_contract :: "numlib \<Rightarrow> bool" where
  "svd_contract L \<longleftrightarrow>
     (\<forall>M Um sv Vm. linalg_svd L M = Inr (Um, sv, Vm) \<longrightarrow> thin_svd M Um sv Vm)"

text \<open>\<open>\<parallel>C - Omega T\<parallel>\<close>, the Frobenius norm the Procrustes problem minimises.\<close>

definition procrustes_residual :: "mat \<Rightarrow> mat \<Rightarrow> mat \<Rightarrow> real" where
  "procrustes_residual C Omega T = frobenius_norm (map2 (map2 (-)) C (mat_mul Omega T))"

text \<open>
  The differences the convergence test looks at, for the energies \<open>es\<close> of successive
  iterations: each energy against the one before it, the first against \<open>e0\<close>.
\<close>

fun diffs_from :: "npfloat \<Rightarrow> npfloat list \<Rightarrow> npfloat list" where
  "diffs_from e0 [] = []"
| "diffs_from e0 (e # es) = fabs (fsub e e0) # diffs_from e es"

text \<open>The lines the loop prints for the iterations \<open>ns\<close> with energies \<open>es\<close>.\<close>

definition iteration_lines :: "npfloat \<Rightarrow> nat list \<Rightarrow> npfloat list \<Rightarrow> event list" where
  "iteration_lines e0 ns es =
     map (\<lambda>(niter, e, d). Iteration (niter + 1) e d) (zip ns (zip es (diffs_from e0 es)))"

text \<open>
  The pair of bases forms an orthonormal block: \<open>V\<^sup>T V = I\<close>, \<open>Vb\<^sup>T Vb = I\<close>
  and \<open>V\<^sup>T Vb = 0\<close>.
\<close>

definition orthonormal_block :: "nat \<Rightarrow> nat \<Rightarrow> mat \<Rightarrow> mat \<Rightarrow> bool" where
  "orthonormal_block rr qq V Vb \<longleftrightarrow>
     mat_mul (transpose_mat V) V = identity_mat rr \<and>
     mat_mul (transpose_mat Vb) Vb = identity_mat qq \<and>
     mat_mul (transpose_mat V) Vb = zero_mat rr qq"

text \<open>\<open>A\<close> with column \<open>a\<close> multiplied by \<open>sg ! a\<close>, and the same for rows.\<close>

definition flip_cols :: "real list \<Rightarrow> mat \<Rightarrow> mat" where
  "flip_cols sg A = map (\<lambda>row. map2 (*) sg row) A"

definition flip_rows :: "real list \<Rightarrow> mat \<Rightarrow> mat" where
  "flip_rows sg A = map2 (\<lambda>s row. map ((*) s) row) sg A"

text \<open>
  The ridge-regularised normal equations in the specification's words:
  \<open>Xi = Vb\<^sup>T (C - V Sh) Po\<^sup>T (Po Po\<^sup>T + g I)\<^sup>-\<^sup>1\<close>, with \<open>I\<close> the identity of
  dimension \<open>d\<close> and \<open>Ainv\<close> the inverse.
\<close>

definition ridge_matrix :: "real \<Rightarrow> nat \<Rightarrow> mat \<Rightarrow> mat" where
  "ridge_matrix g d Po =
     map2 (map2 (+)) (mat_mul Po (transpose_mat Po)) (smult g (identity_mat d))"

definition normal_equations_Xi :: "mat \<Rightarrow> mat \<Rightarrow> mat \<Rightarrow> mat \<Rightarrow> mat \<Rightarrow> mat \<Rightarrow> mat" where
  "normal_equations_Xi C V Vb Sh Po Ainv =
     mat_mul (mat_mul (mat_mul (transpose_mat Vb) (map2 (map2 (-)) C (mat_mul V Sh)))
                (transpose_mat Po)) Ainv"

text \<open>What \<open>np.linalg.inv(A)\<close> promises of its result in exact arithmetic.\<close>

definition is_inverse :: "mat \<Rightarrow> mat \<Rightarrow> bool" where
  "is_inverse A B \<longleftrightarrow>
     is_mat (nrows A) (nrows A) B \<and> mat_mul A B = identity_mat (nrows A) \<and>
     mat_mul B A = identity_mat (nrows A)"

definition inv_contract :: "numlib \<Rightarrow> bool" where
  "inv_contract L \<longleftrightarrow> (\<forall>A B. linalg_inv L A = Inr B \<longrightarrow> is_inverse A B)"

text \<open>What a run has printed, or the exception it ended with.\<close>

definition printed :: "error + state \<Rightarrow> error + event list" where
  "printed res = (case res of Inl e \<Rightarrow> Inl e | Inr st \<Rightarrow> Inr (out st))"

text \<open>
  The state in which the first iteration starts: cell 3 has set \<open>nrg_old = 0\<close> and
  printed its start line.
\<close>

definition loop_entry :: "state \<Rightarrow> state" where
  "loop_entry st = st\<lparr>nrg_old := Finite 0, out := out st @ [Starting]\<rparr>"

text \<open>
  Successive iterations, starting with iteration \<open>niter\<close> in state \<open>st\<close>, none of
  which raises or leaves the loop: \<open>sts\<close> are the states they leave, in order.
\<close>

fun runs_without_break :: "numlib \<Rightarrow> env \<Rightarrow> nat \<Rightarrow> state \<Rightarrow> state list \<Rightarrow> bool" where
  "runs_without_break L E niter st [] \<longleftrightarrow> True"
| "runs_without_break L E niter st (st1 # rest) \<longleftrightarrow>
     am_body L E niter st = Inr (False, st1) \<and> runs_without_break L E (niter + 1) st1 rest"




section \<open>Sample inputs\<close>

text \<open>
  Four snapshots in the plane, \<open>r = q = 1\<close>, \<open>p = 2\<close>. \<open>sref\<close> is the mean of the
  columns of \<open>S\<close> and \<open>Sref\<close> repeats it, as the notebook's data cell computes them.
  The centred data are \<open>[[1, -1, 1, -1], [3/4, 3/4, -3/4, -3/4]]\<close>, with singular values
  \<open>2\<close> and \<open>3/2\<close> and the coordinate axes as left singular vectors.
\<close>

definition sample_env :: env where
  "sample_env = \<lparr>S = [[2, 0, 2, 0], [11/4, 11/4, 5/4, 5/4]],
     Sref = [[1, 1, 1, 1], [2, 2, 2, 2]], sref = [1, 2], num_snapshots = 4,
     p = 2, r = 1, q = 1, tol = 1/1000, gamma = 0, max_iter = 2\<rparr>"

text \<open>
  Degenerate data. First two equal snapshots (\<open>k = 2 = r + q\<close>, and zero variance),
  with a positive ridge weight so that the normal equations have a solution; then two
  different snapshots (\<open>k = 2 = r + q\<close> again, the variance not zero), with the
  notebook's own \<open>gamma = 0\<close>.
\<close>

definition degenerate_env :: env where
  "degenerate_env = \<lparr>S = [[1, 1], [2, 2]],
     Sref = [[1, 1], [2, 2]], sref = [1, 2], num_snapshots = 2,
     p = 2, r = 1, q = 1, tol = 1/1000, gamma = 1, max_iter = 2\<rparr>"

definition few_samples_env :: env where
  "few_samples_env = \<lparr>S = [[1, -1], [0, 0]],
     Sref = [[0, 0], [0, 0]], sref = [0, 0], num_snapshots = 2,
     p = 2, r = 1, q = 1, tol = 1/1000, gamma = 0, max_iter = 2\<rparr>"

text \<open>
  The values of the library routines at the matrices these runs pass to them: a
  singular value decomposition of each matrix decomposed, the inverse of each matrix
  inverted. On all three data sets every snapshot's starting point already minimises its
  objective (the residual's derivative is orthogonal to the residual there), so
  \<open>least_squares\<close> evaluates the objective there and returns the starting point.
\<close>

definition sample_svd :: "mat \<Rightarrow> error + (mat \<times> vec \<times> mat)" where
  "sample_svd M =
     (if M = [[1, -1, 1, -1], [3/4, 3/4, -3/4, -3/4]]
      then Inr ([[1, 0], [0, 1]], [2, 3/2], [[1/2, -1/2, 1/2, -1/2], [1/2, 1/2, -1/2, -1/2]])
      else if M = [[4, 0], [0, 0]]
      then Inr ([[1, 0], [0, 1]], [4, 0], [[1, 0], [0, 1]])
      else if M = [[0, 0], [0, 0]]
      then Inr ([[1, 0], [0, 1]], [0, 0], [[1, 0], [0, 1]])
      else if M = [[1, -1], [0, 0]]
      then Inr ([[1, 0], [0, 1]], [sqrt 2, 0],
                [[1 / sqrt 2, - (1 / sqrt 2)], [1 / sqrt 2, 1 / sqrt 2]])
      else if M = [[2, 0], [0, 0]]
      then Inr ([[1, 0], [0, 1]], [2, 0], [[1, 0], [0, 1]])
      else Inl LinAlgError)"

definition sample_inv :: "mat \<Rightarrow> error + mat" where
  "sample_inv A =
     (if A = [[4]] then Inr [[1/4]]
      else if A = [[1]] then Inr [[1]]
      else if A = [[2]] then Inr [[1/2]]
      else Inl LinAlgError)"

definition sample_least_squares :: "(vec \<Rightarrow> error + vec) \<Rightarrow> vec \<Rightarrow> real \<Rightarrow> error + vec" where
  "sample_least_squares f x0 ftol = (case f x0 of Inl e \<Rightarrow> Inl e | Inr res \<Rightarrow> Inr x0)"

definition sample_lib :: numlib where
  "sample_lib = \<lparr>linalg_svd = sample_svd, linalg_inv = sample_inv,
     opt_least_squares = sample_least_squares\<rparr>"

text \<open>The same library with the other sign for the first singular vector pair.\<close>

definition sample_lib_flipped :: numlib where
  "sample_lib_flipped = sample_lib\<lparr>linalg_svd := (\<lambda>M.
     case sample_svd M of Inl e \<Rightarrow> Inl e
     | Inr (Um, sv, Vm) \<Rightarrow> Inr (flip_cols [-1, 1] Um, sv, flip_rows [-1, 1] Vm))\<rparr>"

text \<open>The globals after cells 1 and 2 on the sample data and on the equal snapshots.\<close>

definition sample_seed :: state where
  "sample_seed = \<lparr>U = [[1, 0], [0, 1]], ss = [2, 3/2], Vr = [[1], [0]],
     Shat = [[1, -1, 1, -1]], Vbar = [[0], [1]], Poly = [[1, 1, 1, 1]], Xi = [[0]],
     nrg_old = Finite 0, Gamma_POD = [[2, 0, 2, 0], [2, 2, 2, 2]],
     Gamma_MPOD = [[2, 0, 2, 0], [2, 2, 2, 2]], Gamma_MAM = [],
     out = [ReconstructionError (Finite (3/5)), ReconstructionError (Finite (3/5))]\<rparr>"

definition degenerate_seed :: state where
  "degenerate_seed = \<lparr>U = [[1, 0], [0, 1]], ss = [0, 0], Vr = [[1], [0]],
     Shat = [[0, 0]], Vbar = [[0], [1]], Poly = [[0, 0]], Xi = [[0]],
     nrg_old = Finite 0, Gamma_POD = [[1, 1], [2, 2]],
     Gamma_MPOD = [[1, 1], [2, 2]], Gamma_MAM = [],
     out = [ReconstructionError NonFinite, ReconstructionError NonFinite]\<rparr>"

text \<open>
  Data on which one iteration changes every variable. \<open>sref\<close> is the mean of the
  columns; the start is a state of the data model's shapes that no step leaves fixed,
  and \<open>moving_end\<close> is the state after one iteration from it. The library values are
  again those at the arguments this run passes: the decomposition of
  \<open>[[2, 0], [0, 1]]\<close>, the inverse of \<open>[[2]]\<close>, and for each snapshot the minimiser
  of its objective (the third and the fourth snapshot, whose residuals at the starting
  point \<open>0\<close> are \<open>[2, -1/2]\<close> and \<open>[-2, -1/2]\<close>, move to \<open>1\<close> and \<open>-1\<close>; the
  first two start at their minimisers).
\<close>

definition moving_env :: env where
  "moving_env = \<lparr>S = [[1, -1, 2, -2], [1/2, 1/2, -1/2, -1/2]],
     Sref = [[0, 0, 0, 0], [0, 0, 0, 0]], sref = [0, 0], num_snapshots = 4,
     p = 2, r = 1, q = 1, tol = 1/1000, gamma = 0, max_iter = 1\<rparr>"

definition moving_start :: state where
  "moving_start = \<lparr>U = [], ss = [], Vr = [[0], [1]],
     Shat = [[1, -1, 0, 0]], Vbar = [[1], [0]], Poly = [[1, 1, 0, 0]], Xi = [[1]],
     nrg_old = Finite 0, Gamma_POD = [], Gamma_MPOD = [], Gamma_MAM = [], out = []\<rparr>"

definition moving_least_squares :: "(vec \<Rightarrow> error + vec) \<Rightarrow> vec \<Rightarrow> real \<Rightarrow> error + vec" where
  "moving_least_squares f x0 ftol =
     (case f x0 of Inl e \<Rightarrow> Inl e
      | Inr res \<Rightarrow> if res = [2, -1/2] then Inr [1]
                   else if res = [-2, -1/2] then Inr [-1]
                   else Inr x0)"

definition moving_lib :: numlib where
  "moving_lib = \<lparr>linalg_svd = (\<lambda>M. if M = [[2, 0], [0, 1]]
                     then Inr ([[1, 0], [0, 1]], [2, 1], [[1, 0], [0, 1]]) else Inl LinAlgError),
     linalg_inv = (\<lambda>A. if A = [[2]] then Inr [[1/2]] else Inl LinAlgError),
     opt_least_squares = moving_least_squares\<rparr>"

definition moving_end :: state where
  "moving_end = \<lparr>U = [], ss = [], Vr = [[1], [0]],
     Shat = [[1, -1, 1, -1]], Vbar = [[0], [1]], Poly = [[1, 1, 1, 1]], Xi = [[1/2]],
     nrg_old = Finite (5/11), Gamma_POD = [], Gamma_MPOD = [], Gamma_MAM = [],
     out = [Starting, Iteration 1 (Finite (5/11)) (Finite (5/11))]\<rparr>"

section \<open>Array lemmas\<close>

lemma bindE_Inl [simp]: "bindE (Inl e) f = Inl e"
  by (simp add: bindE_def)

lemma bindE_Inr [simp]: "bindE (Inr x) f = f x"
  by (simp add: bindE_def)

lemma bindE_eq_Inr: "bindE m f = Inr y \<longleftrightarrow> (\<exists>x. m = Inr x \<and> f x = Inr y)"
  by (cases m) simp_all

lemma is_mat_ncols: "is_mat n m A \<Longrightarrow> 0 < n \<Longrightarrow> ncols A = m"
  by (cases A) (auto simp: is_mat_def ncols_def)

lemma is_mat_nrows: "is_mat n m A \<Longrightarrow> nrows A = n"
  by (simp add: is_mat_def nrows_def)

lemma is_mat_row: "is_mat n m A \<Longrightarrow> i < n \<Longrightarrow> length (A ! i) = m"
  by (simp add: is_mat_def)

lemma mat_eqI:
  assumes "is_mat n m A" "is_mat n m B"
    and "\<And>i j. i < n \<Longrightarrow> j < m \<Longrightarrow> A ! i ! j = B ! i ! j"
  shows "A = B"
proof (rule nth_equalityI)
  show "length A = length B" using assms by (simp add: is_mat_def)
next
  fix i assume "i < length A"
  then have i: "i < n" using assms(1) by (simp add: is_mat_def)
  show "A ! i = B ! i"
    using assms i by (intro nth_equalityI) (simp_all add: is_mat_row)
qed

lemma dot_sum:
  "length u = m \<Longrightarrow> length v = m \<Longrightarrow> dot u v = (\<Sum>l<m. u ! l * v ! l)"
proof -
  assume l: "length u = m" "length v = m"
  have "dot u v = sum_list (map (\<lambda>l. u ! l * v ! l) [0..<m])"
    unfolding dot_def using l by (intro arg_cong[where f=sum_list] nth_equalityI) simp_all
  also have "\<dots> = (\<Sum>l<m. u ! l * v ! l)"
    by (simp add: sum_list_sum_nth atLeast0LessThan)
  finally show ?thesis .
qed

lemma is_mat_mat_mul: "is_mat (length A) (ncols B) (mat_mul A B)"
  by (simp add: is_mat_def mat_mul_def)

lemma mat_mul_nth:
  assumes "is_mat n m A" "is_mat m k B" "0 < m" "i < n" "j < k"
  shows "mat_mul A B ! i ! j = (\<Sum>l<m. A ! i ! l * B ! l ! j)"
proof -
  have nc: "ncols B = k" using assms by (simp add: is_mat_ncols)
  have "mat_mul A B ! i ! j = dot (A ! i) (col B j)"
    using assms nc by (simp add: mat_mul_def is_mat_def)
  also have "\<dots> = (\<Sum>l<m. (A ! i) ! l * (col B j) ! l)"
    using assms by (intro dot_sum) (simp_all add: is_mat_def col_def)
  also have "\<dots> = (\<Sum>l<m. A ! i ! l * B ! l ! j)"
    using assms by (intro sum.cong refl) (simp add: col_def is_mat_def)
  finally show ?thesis .
qed

lemma is_mat_mul:
  "is_mat n m A \<Longrightarrow> is_mat m k B \<Longrightarrow> 0 < m \<Longrightarrow> is_mat n k (mat_mul A B)"
  using is_mat_mat_mul[of A B] by (simp add: is_mat_ncols is_mat_def)

lemma matmul_ok:
  "is_mat n m A \<Longrightarrow> is_mat m k B \<Longrightarrow> 0 < n \<Longrightarrow> matmul A B = Inr (mat_mul A B)"
  by (simp add: matmul_def is_mat_ncols is_mat_nrows)

lemma is_mat_transpose:
  "is_mat n m A \<Longrightarrow> 0 < n \<Longrightarrow> is_mat m n (transpose_mat A)"
  by (simp add: is_mat_def transpose_mat_def col_def is_mat_ncols[unfolded is_mat_def])

lemma transpose_nth:
  "is_mat n m A \<Longrightarrow> i < n \<Longrightarrow> j < m \<Longrightarrow> transpose_mat A ! j ! i = A ! i ! j"
proof -
  assume A: "is_mat n m A" and i: "i < n" and j: "j < m"
  then have "ncols A = m" by (simp add: is_mat_ncols)
  then show ?thesis using A i j by (simp add: transpose_mat_def col_def is_mat_def)
qed

lemma bcast_same: "length xs = n \<Longrightarrow> bcast n xs = xs"
  by (auto simp: bcast_def)

lemma zip_rows_length:
  assumes "(a, b) \<in> set (zip A B)" "is_mat n m A" "is_mat n' m B"
  shows "length a = m \<and> length b = m"
proof -
  have "a \<in> set A" "b \<in> set B"
    using assms(1) by (auto dest: set_zip_leftD set_zip_rightD)
  then show ?thesis using assms(2,3) by (simp add: is_mat_def)
qed

lemma elementwise_ok:
  assumes "is_mat n m A" "is_mat n m B"
  shows "elementwise f A B = Inr (map2 (map2 f) A B)"
proof -
  have nc: "ncols A = ncols B"
    using assms by (cases "n = 0") (simp_all add: is_mat_ncols, simp add: is_mat_def ncols_def)
  have nr: "nrows A = n" "nrows B = n" using assms by (simp_all add: is_mat_nrows)
  have rows: "map2 (\<lambda>ra rb. map2 f (bcast (ncols B) ra) (bcast (ncols B) rb)) A B = map2 (map2 f) A B"
  proof (cases "n = 0")
    case True
    then show ?thesis using assms by (simp add: is_mat_def)
  next
    case False
    then have "ncols B = m" using assms by (simp add: is_mat_ncols)
    then show ?thesis
      using assms by (intro map_cong refl) (auto simp: bcast_same dest: zip_rows_length)
  qed
  have len: "length A = n" "length B = n" using assms by (simp_all add: is_mat_def)
  show ?thesis
    by (simp add: elementwise_def Let_def compatible_def bdim_def nc nr bcast_same len rows)
qed

lemma is_mat_map2:
  "is_mat n m A \<Longrightarrow> is_mat n m B \<Longrightarrow> is_mat n m (map2 (map2 f) A B)"
proof -
  assume A: "is_mat n m A" and B: "is_mat n m B"
  have "length row = m" if "row \<in> set (map2 (map2 f) A B)" for row
  proof -
    from that obtain a b where ab: "(a, b) \<in> set (zip A B)" and row: "row = map2 f a b"
      by auto
    from zip_rows_length[OF ab A B] row show ?thesis by simp
  qed
  then show ?thesis using A B by (simp add: is_mat_def)
qed

lemma map2_nth:
  "is_mat n m A \<Longrightarrow> is_mat n m B \<Longrightarrow> i < n \<Longrightarrow> j < m \<Longrightarrow>
     map2 (map2 f) A B ! i ! j = f (A ! i ! j) (B ! i ! j)"
  by (simp add: is_mat_def)

lemma sumsq_sum:
  assumes "is_mat n m A"
  shows "sumsq A = (\<Sum>i<n. \<Sum>j<m. (A ! i ! j)\<^sup>2)"
proof -
  have "sumsq A = sum_list (map (\<lambda>i. \<Sum>j<m. (A ! i ! j)\<^sup>2) [0..<n])"
    unfolding sumsq_def
  proof (intro arg_cong[where f=sum_list] nth_equalityI)
    show "length (map (\<lambda>row. sum_list (map (\<lambda>x. x\<^sup>2) row)) A) = length (map (\<lambda>i. \<Sum>j<m. (A ! i ! j)\<^sup>2) [0..<n])"
      using assms by (simp add: is_mat_def)
  next
    fix i assume "i < length (map (\<lambda>row. sum_list (map (\<lambda>x. x\<^sup>2) row)) A)"
    then have i: "i < n" using assms by (simp add: is_mat_def)
    then have len: "length (A ! i) = m" using assms by (simp add: is_mat_def)
    have "sum_list (map (\<lambda>x. x\<^sup>2) (A ! i)) = (\<Sum>j<m. (A ! i ! j)\<^sup>2)"
      using len by (simp add: sum_list_sum_nth atLeast0LessThan)
    then show "map (\<lambda>row. sum_list (map (\<lambda>x. x\<^sup>2) row)) A ! i = map (\<lambda>i. \<Sum>j<m. (A ! i ! j)\<^sup>2) [0..<n] ! i"
      using i assms by (simp add: is_mat_def)
  qed
  also have "\<dots> = (\<Sum>i<n. \<Sum>j<m. (A ! i ! j)\<^sup>2)"
    by (simp add: sum_list_sum_nth atLeast0LessThan)
  finally show ?thesis .
qed

lemma sumsq_nonneg: "0 \<le> sumsq A"
  unfolding sumsq_def by (intro sum_list_nonneg) (auto intro!: sum_list_nonneg)

lemma frobenius_norm_sq: "(frobenius_norm A)\<^sup>2 = sumsq A"
  by (simp add: frobenius_norm_def sumsq_nonneg)

lemma is_mat_identity: "is_mat n n (identity_mat n)"
  by (simp add: is_mat_def identity_mat_def)

lemma identity_nth: "i < n \<Longrightarrow> j < n \<Longrightarrow> identity_mat n ! i ! j = (if i = j then 1 else 0)"
  by (simp add: identity_mat_def)

lemma is_mat_cols_slice:
  "is_mat n m A \<Longrightarrow> is_mat n (min b m - a) (cols_slice a b A)"
  by (auto simp: is_mat_def cols_slice_def)

lemma cols_slice_nth:
  "is_mat n m A \<Longrightarrow> i < n \<Longrightarrow> j < min b m - a \<Longrightarrow> cols_slice a b A ! i ! j = A ! i ! (a + j)"
proof -
  assume A: "is_mat n m A" and i: "i < n" and j: "j < min b m - a"
  have len: "length (A ! i) = m" using A i by (simp add: is_mat_def)
  have "drop a (take b (A ! i)) ! j = take b (A ! i) ! (a + j)"
    using j len by (intro nth_drop) (auto simp: min_def split: if_splits)
  also have "\<dots> = A ! i ! (a + j)"
    using j by (intro nth_take) simp
  finally show ?thesis using A i by (simp add: cols_slice_def is_mat_def)
qed

lemma is_mat_append: "is_mat n m A \<Longrightarrow> is_mat n' m B \<Longrightarrow> is_mat (n + n') m (A @ B)"
  by (auto simp: is_mat_def)

lemma concat_nth_uniform:
  "(\<forall>B \<in> set Bs. length B = n) \<Longrightarrow> b < length Bs \<Longrightarrow> i < n \<Longrightarrow>
     concat Bs ! (b * n + i) = Bs ! b ! i"
proof (induction Bs arbitrary: b)
  case Nil
  then show ?case by simp
next
  case (Cons B Bs)
  show ?case
  proof (cases b)
    case 0
    then show ?thesis using Cons.prems by (simp add: nth_append)
  next
    case (Suc b')
    then have "concat (B # Bs) ! (b * n + i) = concat Bs ! (b' * n + i)"
      using Cons.prems by (simp add: nth_append)
    then show ?thesis using Cons.IH[of b'] Cons.prems Suc by simp
  qed
qed

lemma length_concat_uniform:
  "(\<forall>B \<in> set Bs. length B = n) \<Longrightarrow> length (concat Bs) = length Bs * n"
  by (induction Bs) simp_all

lemma is_mat_power: "is_mat n m x \<Longrightarrow> is_mat n m (map (map (\<lambda>v. v ^ d)) x)"
  by (simp add: is_mat_def)

lemma ncols_power: "ncols (map (map (\<lambda>v. v ^ d)) x) = ncols x"
  by (cases x) (simp_all add: ncols_def)

lemma polynomial_features_ok:
  assumes "2 \<le> pdeg"
  shows "polynomial_features pdeg x = Inr (concat (polynomial_form pdeg x))"
proof -
  have "[2..<pdeg + 1] = 2 # [3..<pdeg + 1]"
    using assms by (simp add: upt_conv_Cons numeral_3_eq_3 numeral_2_eq_2)
  then obtain A As where A: "polynomial_form pdeg x = A # As"
    by (simp add: polynomial_form_def)
  have "\<forall>B \<in> set (polynomial_form pdeg x). ncols B = ncols x"
    by (auto simp: polynomial_form_def ncols_power)
  then show ?thesis
    unfolding polynomial_features_def concatenate_def A[symmetric]
    using A by (simp split: list.splits)
qed

section \<open>The polynomial expansion\<close>

text \<open>
  C8. For a reduced-coordinate matrix \<open>x\<close> with \<open>rr\<close> rows and \<open>k\<close> columns and
  a degree \<open>pdeg \<ge> 2\<close>, \<open>np.concatenate(polynomial_form(x), axis=0)\<close> does not raise
  and is the \<open>(pdeg - 1) rr \<times> k\<close> matrix whose block \<open>d - 2\<close> (for \<open>d = 2, ..., pdeg\<close>,
  in increasing order) is the elementwise \<open>d\<close>-th power of \<open>x\<close>. The function reads
  \<open>p\<close> and \<open>x\<close> only and changes nothing, so equal inputs give equal outputs.
\<close>

theorem polynomial_features_stack:
  assumes "is_mat rr k x" and "2 \<le> pdeg"
  shows "\<exists>Po. polynomial_features pdeg x = Inr Po \<and> is_mat ((pdeg - 1) * rr) k Po \<and>
           (\<forall>d i j. 2 \<le> d \<and> d \<le> pdeg \<and> i < rr \<and> j < k \<longrightarrow>
              Po ! ((d - 2) * rr + i) ! j = (x ! i ! j) ^ d)"
proof -
  let ?Bs = "polynomial_form pdeg x"
  let ?Po = "concat ?Bs"
  have len: "length ?Bs = pdeg - 1"
    unfolding polynomial_form_def length_map length_upt by arith
  have blocks: "\<forall>B \<in> set ?Bs. length B = rr"
    using assms(1) by (auto simp: polynomial_form_def is_mat_def)
  have rows: "\<forall>B \<in> set ?Bs. \<forall>row \<in> set B. length row = k"
    using assms(1) by (auto simp: polynomial_form_def is_mat_def)
  have shape: "is_mat ((pdeg - 1) * rr) k ?Po"
    using length_concat_uniform[OF blocks] rows len by (auto simp: is_mat_def)
  have entry: "?Po ! ((d - 2) * rr + i) ! j = (x ! i ! j) ^ d"
    if d: "2 \<le> d" "d \<le> pdeg" and i: "i < rr" and j: "j < k" for d i j
  proof -
    have b: "d - 2 < length ?Bs" using d len by simp
    have "?Po ! ((d - 2) * rr + i) = ?Bs ! (d - 2) ! i"
      by (rule concat_nth_uniform[OF blocks b i])
    also have "?Bs ! (d - 2) = map (map (\<lambda>v. v ^ d)) x"
    proof -
      have b': "d - 2 < length [2..<pdeg + 1]"
        unfolding length_upt using d by arith
      have "2 + (d - 2) < pdeg + 1" using d by arith
      then have "[2..<pdeg + 1] ! (d - 2) = 2 + (d - 2)" by (rule nth_upt)
      then have idx: "[2..<pdeg + 1] ! (d - 2) = d" using d by arith
      have "?Bs ! (d - 2) = map (map (\<lambda>v. v ^ ([2..<pdeg + 1] ! (d - 2)))) x"
        unfolding polynomial_form_def by (rule nth_map[OF b'])
      then show ?thesis unfolding idx .
    qed
    finally show ?thesis using assms(1) i j by (simp add: is_mat_def)
  qed
  show ?thesis
    using polynomial_features_ok[OF assms(2)] shape entry by blast
qed

theorem polynomial_features_stack_witness:
  "\<exists>Po. polynomial_features 3 [[2, 3], [-1, 1 / 2]] = Inr Po \<and> is_mat 4 2 Po \<and>
     Po ! 2 ! 1 = 27 \<and> Po ! 1 ! 1 = 1 / 4"
proof -
  have x: "is_mat 2 2 [[2, 3], [-1, 1 / 2 :: real]]" by (simp add: is_mat_def)
  from polynomial_features_stack[OF x, of 3]
  obtain Po where Po: "polynomial_features 3 [[2, 3], [-1, 1 / 2]] = Inr Po"
      "is_mat ((3 - 1) * 2) 2 Po"
      "\<forall>d i j. 2 \<le> d \<and> d \<le> 3 \<and> i < 2 \<and> j < 2 \<longrightarrow>
         Po ! ((d - 2) * 2 + i) ! j = ([[2, 3], [-1, 1 / 2 :: real]] ! i ! j) ^ d"
    by auto
  from Po(3)[rule_format, of 3 0 1] have "Po ! 2 ! 1 = 27" by simp
  moreover from Po(3)[rule_format, of 2 1 1] have "Po ! 1 ! 1 = 1 / 4"
    by (simp add: power2_eq_square)
  ultimately show ?thesis using Po(1,2) by auto
qed

section \<open>The control flow of the outer loop\<close>

lemma step1_frame:
  "step1 L E st = Inr st' \<Longrightarrow>
     nrg_old st' = nrg_old st \<and> out st' = out st \<and> Shat st' = Shat st \<and>
     Xi st' = Xi st \<and> Poly st' = Poly st"
  by (auto simp: step1_def bindE_eq_Inr)

lemma step2_frame:
  "step2 L E st = Inr st' \<Longrightarrow>
     nrg_old st' = nrg_old st \<and> out st' = out st \<and> Shat st' = Shat st \<and>
     Vr st' = Vr st \<and> Vbar st' = Vbar st \<and> Poly st' = Poly st"
  by (auto simp: step2_def bindE_eq_Inr)

lemma step3_frame:
  "step3 L E st = Inr st' \<Longrightarrow>
     nrg_old st' = nrg_old st \<and> out st' = out st \<and> Xi st' = Xi st \<and>
     Vr st' = Vr st \<and> Vbar st' = Vbar st"
  by (auto simp: step3_def bindE_eq_Inr)

lemma energy_frame [simp]:
  "energy E (st\<lparr>out := x\<rparr>) = energy E st"
  "energy E (st\<lparr>nrg_old := y\<rparr>) = energy E st"
  by (simp_all add: energy_def)

lemma convergence_check_Inr:
  assumes "convergence_check E niter st = Inr (brk, st')"
  shows "\<exists>e. energy E st = Inr e \<and> energy E st' = Inr e \<and>
           brk = fless (fabs (fsub e (nrg_old st))) (tol E) \<and>
           out st' = out st @ Iteration (niter + 1) e (fabs (fsub e (nrg_old st))) #
                       (if brk then [ConvergenceActive] else []) \<and>
           nrg_old st' = (if brk then nrg_old st else e)"
  using assms
  by (auto simp: convergence_check_def bindE_eq_Inr Let_def split: if_splits)

lemma am_body_Inr:
  assumes "am_body L E niter st = Inr (brk, st')"
  shows "\<exists>e. energy E st' = Inr e \<and>
           brk = fless (fabs (fsub e (nrg_old st))) (tol E) \<and>
           out st' = out st @ Iteration (niter + 1) e (fabs (fsub e (nrg_old st))) #
                       (if brk then [ConvergenceActive] else []) \<and>
           nrg_old st' = (if brk then nrg_old st else e)"
proof -
  from assms obtain st1 st2 st3 where
    s: "step1 L E st = Inr st1" "step2 L E st1 = Inr st2" "step3 L E st2 = Inr st3"
       "convergence_check E niter st3 = Inr (brk, st')"
    by (auto simp: am_body_def bindE_eq_Inr)
  have "nrg_old st3 = nrg_old st" "out st3 = out st"
    using step1_frame[OF s(1)] step2_frame[OF s(2)] step3_frame[OF s(3)] by simp_all
  then show ?thesis using convergence_check_Inr[OF s(4)] by auto
qed

lemma iteration_lines_Nil [simp]: "iteration_lines e0 ns [] = []"
  by (simp add: iteration_lines_def)

lemma iteration_lines_Cons [simp]:
  "iteration_lines e0 (niter # ns) (e # es) =
     Iteration (niter + 1) e (fabs (fsub e e0)) # iteration_lines e ns es"
  by (simp add: iteration_lines_def)

lemma diffs_from_last:
  "es \<noteq> [] \<Longrightarrow> last (diffs_from e0 (e # es)) = last (diffs_from e es)"
  by (cases es) simp_all

lemma diffs_from_Nil_iff [simp]: "diffs_from e0 es = [] \<longleftrightarrow> es = []"
  by (cases es) simp_all

lemma am_for_trace:
  assumes "am_for L E ns st = Inr st'"
  shows "\<exists>es. length es \<le> length ns \<and>
           (\<forall>d \<in> set (butlast (diffs_from (nrg_old st) es)). \<not> fless d (tol E)) \<and>
           out st' = out st @ iteration_lines (nrg_old st) ns es @
             (if es \<noteq> [] \<and> fless (last (diffs_from (nrg_old st) es)) (tol E)
              then [ConvergenceActive] else []) \<and>
           (\<not> (es \<noteq> [] \<and> fless (last (diffs_from (nrg_old st) es)) (tol E))
              \<longrightarrow> length es = length ns) \<and>
           (es \<noteq> [] \<longrightarrow> energy E st' = Inr (last es)) \<and>
           (es = [] \<longrightarrow> st' = st) \<and>
           (\<forall>e \<in> set es. \<exists>st''. energy E st'' = Inr e)"
  using assms
proof (induction ns arbitrary: st)
  case Nil
  then show ?case by (intro exI[of _ "[]"]) simp
next
  case (Cons niter rest)
  from Cons.prems obtain brk st1 where
    body: "am_body L E niter st = Inr (brk, st1)" and
    rest: "if brk then st' = st1 else am_for L E rest st1 = Inr st'"
    by (auto split: sum.splits if_splits)
  from am_body_Inr[OF body] obtain e where
    e: "energy E st1 = Inr e" "brk = fless (fabs (fsub e (nrg_old st))) (tol E)"
       "out st1 = out st @ Iteration (niter + 1) e (fabs (fsub e (nrg_old st))) #
                       (if brk then [ConvergenceActive] else [])"
       "nrg_old st1 = (if brk then nrg_old st else e)"
    by blast
  show ?case
  proof (cases brk)
    case True
    then have "st' = st1" using rest by simp
    then show ?thesis using e True
      by (intro exI[of _ "[e]"]) auto
  next
    case False
    then have run: "am_for L E rest st1 = Inr st'" using rest by simp
    have old: "nrg_old st1 = e" using e(4) False by simp
    from Cons.IH[OF run] obtain es where
      es: "length es \<le> length rest"
          "\<forall>d \<in> set (butlast (diffs_from e es)). \<not> fless d (tol E)"
          "out st' = out st1 @ iteration_lines e rest es @
             (if es \<noteq> [] \<and> fless (last (diffs_from e es)) (tol E)
              then [ConvergenceActive] else [])"
          "\<not> (es \<noteq> [] \<and> fless (last (diffs_from e es)) (tol E)) \<longrightarrow> length es = length rest"
          "es \<noteq> [] \<longrightarrow> energy E st' = Inr (last es)"
          "es = [] \<longrightarrow> st' = st1"
          "\<forall>e \<in> set es. \<exists>st''. energy E st'' = Inr e"
      unfolding old by blast
    let ?d = "fabs (fsub e (nrg_old st))"
    have nd: "\<not> fless ?d (tol E)" using e(2) False by simp
    show ?thesis
    proof (cases "es = []")
      case True
      then show ?thesis using es e False nd
        by (intro exI[of _ "[e]"]) auto
    next
      case nonempty: False
      have last: "last (diffs_from (nrg_old st) (e # es)) = last (diffs_from e es)"
        using nonempty by (rule diffs_from_last)
      have bl: "butlast (diffs_from (nrg_old st) (e # es)) = ?d # butlast (diffs_from e es)"
        using nonempty by simp
      show ?thesis
        apply (intro exI[of _ "e # es"])
        unfolding last bl
        using es e False nd nonempty by auto
    qed
  qed
qed

text \<open>
  C3. The outer loop runs at most \<open>max_iter\<close> iterations, and it stops, printing the
  convergence line, at the first iteration whose \<open>|energy - previous energy|\<close> is below
  \<open>tol\<close>: when the loop returns, there are energies \<open>es\<close>, one per iteration run and
  at most \<open>max_iter\<close> of them, such that no difference before the last is below
  \<open>tol\<close>; the output is the start line, one line per iteration, and the convergence
  line exactly when the last difference is below \<open>tol\<close>; without it all \<open>max_iter\<close>
  iterations were run; and the last energy is \<open>energy\<close> of the returned state, that is
  \<open>\<parallel>Vr Shat + Vbar Xi Poly\<parallel>\<^sup>2 / \<parallel>S - Sref\<parallel>\<^sup>2\<close>.
\<close>

theorem outer_loop_bounded:
  assumes "am_loop L E st = Inr st'"
  shows "\<exists>es. length es \<le> max_iter E \<and>
           (\<forall>d \<in> set (butlast (diffs_from (Finite 0) es)). \<not> fless d (tol E)) \<and>
           out st' = out st @ Starting # iteration_lines (Finite 0) [0..<max_iter E] es @
             (if es \<noteq> [] \<and> fless (last (diffs_from (Finite 0) es)) (tol E)
              then [ConvergenceActive] else []) \<and>
           (\<not> (es \<noteq> [] \<and> fless (last (diffs_from (Finite 0) es)) (tol E))
              \<longrightarrow> length es = max_iter E) \<and>
           (es \<noteq> [] \<longrightarrow> energy E st' = Inr (last es))"
proof -
  let ?st0 = "st\<lparr>nrg_old := Finite 0, out := out st @ [Starting]\<rparr>"
  from assms have "am_for L E [0..<max_iter E] ?st0 = Inr st'"
    by (simp add: am_loop_def)
  from am_for_trace[OF this] obtain es where
    "length es \<le> length [0..<max_iter E]"
    "\<forall>d \<in> set (butlast (diffs_from (nrg_old ?st0) es)). \<not> fless d (tol E)"
    "out st' = out ?st0 @ iteration_lines (nrg_old ?st0) [0..<max_iter E] es @
             (if es \<noteq> [] \<and> fless (last (diffs_from (nrg_old ?st0) es)) (tol E)
              then [ConvergenceActive] else [])"
    "\<not> (es \<noteq> [] \<and> fless (last (diffs_from (nrg_old ?st0) es)) (tol E))
              \<longrightarrow> length es = length [0..<max_iter E]"
    "es \<noteq> [] \<longrightarrow> energy E st' = Inr (last es)"
    by blast
  then show ?thesis
    by (intro exI[of _ es]) simp
qed

lemma energy_nonneg:
  assumes "energy E st = Inr (Finite e)"
  shows "0 \<le> e"
  using assms
  by (auto simp: energy_def bindE_eq_Inr fdiv_def split: if_splits)

text \<open>
  C10. \<open>nrg_old\<close> is set to 0 before the first iteration, so the first convergence
  test compares the first energy with 0: whenever the three steps of the first
  iteration succeed and the energy after them is below \<open>tol\<close>, the loop prints the
  convergence line and stops after exactly one iteration.
\<close>

theorem first_iteration_against_zero:
  assumes "0 < max_iter E"
    and "step1 L E (st\<lparr>nrg_old := Finite 0, out := out st @ [Starting]\<rparr>) = Inr st1"
    and "step2 L E st1 = Inr st2"
    and "step3 L E st2 = Inr st3"
    and "energy E st3 = Inr (Finite e)"
    and "e < tol E"
  shows "am_loop L E st =
           Inr (st3\<lparr>out := out st @ [Starting, Iteration 1 (Finite e) (Finite e), ConvergenceActive]\<rparr>)"
proof -
  let ?st0 = "st\<lparr>nrg_old := Finite 0, out := out st @ [Starting]\<rparr>"
  have range: "[0..<max_iter E] = 0 # [1..<max_iter E]"
    using assms(1) by (simp add: upt_conv_Cons)
  have frame: "nrg_old st3 = Finite 0" "out st3 = out st @ [Starting]"
    using step1_frame[OF assms(2)] step2_frame[OF assms(3)] step3_frame[OF assms(4)]
    by simp_all
  have e: "\<bar>e\<bar> = e" using energy_nonneg[OF assms(5)] by simp
  have "convergence_check E 0 st3 =
          Inr (True, st3\<lparr>out := out st @ [Starting, Iteration 1 (Finite e) (Finite e), ConvergenceActive]\<rparr>)"
    using assms(5,6) by (simp add: convergence_check_def frame e Let_def)
  then have "am_body L E 0 ?st0 =
          Inr (True, st3\<lparr>out := out st @ [Starting, Iteration 1 (Finite e) (Finite e), ConvergenceActive]\<rparr>)"
    using assms(2,3,4) by (simp add: am_body_def)
  then show ?thesis
    by (simp add: am_loop_def range)
qed

lemma upt_plus_Suc: "[n..<n + Suc m] = n # [n + 1..<n + 1 + m]"
  by (simp add: upt_conv_Cons del: upt_Suc)

lemma am_for_no_break:
  "runs_without_break L E niter st sts \<Longrightarrow>
     am_for L E [niter..<niter + length sts] st = Inr (last (st # sts)) \<and>
     (\<exists>es. length es = length sts \<and>
        (\<forall>d \<in> set (diffs_from (nrg_old st) es). \<not> fless d (tol E)) \<and>
        (\<forall>i < length sts. energy E (sts ! i) = Inr (es ! i)) \<and>
        out (last (st # sts)) =
          out st @ iteration_lines (nrg_old st) [niter..<niter + length sts] es)"
proof (induction sts arbitrary: niter st)
  case Nil
  then show ?case by (simp add: exI[of _ "[]"])
next
  case (Cons st1 rest)
  from Cons.prems have body: "am_body L E niter st = Inr (False, st1)"
    and run: "runs_without_break L E (niter + 1) st1 rest"
    by simp_all
  from am_body_Inr[OF body] obtain e where
    e: "\<not> fless (fabs (fsub e (nrg_old st))) (tol E)"
       "out st1 = out st @ [Iteration (niter + 1) e (fabs (fsub e (nrg_old st)))]"
       "nrg_old st1 = e" "energy E st1 = Inr e"
    by auto
  have range: "[niter..<niter + length (st1 # rest)] = niter # [niter + 1..<niter + 1 + length rest]"
    using upt_plus_Suc[of niter "length rest"] by simp
  from Cons.IH[OF run] obtain es where
    loop: "am_for L E [niter + 1..<niter + 1 + length rest] st1 = Inr (last (st1 # rest))"
    and es: "length es = length rest"
      "\<forall>d \<in> set (diffs_from e es). \<not> fless d (tol E)"
      "out (last (st1 # rest)) = out st1 @ iteration_lines e [niter + 1..<niter + 1 + length rest] es"
      "\<forall>i < length rest. energy E (rest ! i) = Inr (es ! i)"
    unfolding e(3) by blast
  have "am_for L E [niter..<niter + length (st1 # rest)] st = Inr (last (st # st1 # rest))"
    unfolding range using body loop by simp
  moreover have "length (e # es) = length (st1 # rest)" using es(1) by simp
  moreover have "\<forall>d \<in> set (diffs_from (nrg_old st) (e # es)). \<not> fless d (tol E)"
    using e(1) es(2) by simp
  moreover have "out (last (st # st1 # rest)) =
      out st @ iteration_lines (nrg_old st) [niter..<niter + length (st1 # rest)] (e # es)"
    unfolding range using es(3) e(2) by simp
  moreover have "\<forall>i < length (st1 # rest). energy E ((st1 # rest) ! i) = Inr ((e # es) ! i)"
    using es(4) e(4) by (auto simp: nth_Cons split: nat.splits)
  ultimately show ?case by blast
qed

lemma loop_entry_fields [simp]:
  "Shat (loop_entry st) = Shat st" "Xi (loop_entry st) = Xi st" "Poly (loop_entry st) = Poly st"
  "Vr (loop_entry st) = Vr st" "Vbar (loop_entry st) = Vbar st"
  "nrg_old (loop_entry st) = Finite 0" "out (loop_entry st) = out st @ [Starting]"
  by (simp_all add: loop_entry_def)

lemma am_loop_entry: "am_loop L E st = am_for L E [0..<max_iter E] (loop_entry st)"
  by (simp add: am_loop_def loop_entry_def)

text \<open>
  C6, as the code has it. When all \<open>max_iter\<close> iterations have completed without a
  difference below \<open>tol\<close> (every body returns, none with \<open>break\<close>), the loop returns:
  it raises nothing, and the state it returns is the one the last iteration left, so
  \<open>Vr\<close>, \<open>Vbar\<close>, \<open>Xi\<close> and \<open>Shat\<close> are the current ones and the cell goes on
  to compute \<open>Gamma_MAM\<close> from them. The whole output of the loop is the start line
  and the \<open>max_iter\<close> iteration lines, each with the energy of the state its iteration
  left, and the cell adds the reconstruction error: no line or flag says that the budget
  was exhausted.
\<close>

theorem budget_exhausted_silently:
  assumes "runs_without_break L E 0 (loop_entry st) sts"
    and "length sts = max_iter E"
  shows "am_loop L E st = Inr (last (loop_entry st # sts)) \<and>
         (\<exists>es. length es = max_iter E \<and>
            (\<forall>i < max_iter E. energy E (sts ! i) = Inr (es ! i)) \<and>
            (\<forall>d \<in> set (diffs_from (Finite 0) es). \<not> fless d (tol E)) \<and>
            out (last (loop_entry st # sts)) =
              out st @ Starting # iteration_lines (Finite 0) [0..<max_iter E] es) \<and>
         am_cell L E st =
           bindE (manifold_reconstruction E (last (loop_entry st # sts))) (\<lambda>G.
           bindE (relative_error E (S E) G) (\<lambda>err.
           Inr ((last (loop_entry st # sts))\<lparr>Gamma_MAM := G,
                  out := out (last (loop_entry st # sts)) @ [ReconstructionError err]\<rparr>)))"
proof -
  from am_for_no_break[OF assms(1)] obtain es where
    loop: "am_for L E [0..<0 + length sts] (loop_entry st) = Inr (last (loop_entry st # sts))"
    and es: "length es = length sts"
      "\<forall>d \<in> set (diffs_from (nrg_old (loop_entry st)) es). \<not> fless d (tol E)"
      "out (last (loop_entry st # sts)) =
         out (loop_entry st) @ iteration_lines (nrg_old (loop_entry st)) [0..<0 + length sts] es"
      "\<forall>i < length sts. energy E (sts ! i) = Inr (es ! i)"
    by blast
  have ret: "am_loop L E st = Inr (last (loop_entry st # sts))"
    using loop assms(2) by (simp add: am_loop_entry)
  have lines: "\<exists>es. length es = max_iter E \<and>
            (\<forall>i < max_iter E. energy E (sts ! i) = Inr (es ! i)) \<and>
            (\<forall>d \<in> set (diffs_from (Finite 0) es). \<not> fless d (tol E)) \<and>
            out (last (loop_entry st # sts)) =
              out st @ Starting # iteration_lines (Finite 0) [0..<max_iter E] es"
    using es assms(2) by (intro exI[of _ es]) simp
  show ?thesis
    using lines by (simp add: am_cell_def ret)
qed






section \<open>The orthogonal Procrustes problem\<close>

lemma isometry_sum:
  fixes X :: "nat \<Rightarrow> nat \<Rightarrow> real" and a b :: "nat \<Rightarrow> real"
  assumes X: "\<And>l l'. l < m \<Longrightarrow> l' < m \<Longrightarrow> (\<Sum>i<n. X i l * X i l') = (if l = l' then 1 else 0)"
  shows "(\<Sum>i<n. (\<Sum>l<m. X i l * a l) * (\<Sum>l<m. X i l * b l)) = (\<Sum>l<m. a l * b l)"
proof -
  have "(\<Sum>i<n. (\<Sum>l<m. X i l * a l) * (\<Sum>l<m. X i l * b l))
      = (\<Sum>i<n. \<Sum>l<m. \<Sum>l'<m. (a l * b l') * (X i l * X i l'))"
    by (simp add: sum_product mult_ac)
  also have "\<dots> = (\<Sum>l<m. \<Sum>i<n. \<Sum>l'<m. (a l * b l') * (X i l * X i l'))"
    by (rule sum.swap)
  also have "\<dots> = (\<Sum>l<m. \<Sum>l'<m. \<Sum>i<n. (a l * b l') * (X i l * X i l'))"
    by (rule sum.cong[OF refl]) (rule sum.swap)
  also have "\<dots> = (\<Sum>l<m. \<Sum>l'<m. (a l * b l') * (\<Sum>i<n. X i l * X i l'))"
    by (simp add: sum_distrib_left)
  also have "\<dots> = (\<Sum>l<m. \<Sum>l'<m. (a l * b l') * (if l = l' then 1 else 0))"
    by (intro sum.cong refl) (simp add: X)
  also have "\<dots> = (\<Sum>l<m. \<Sum>l'<m. (if l = l' then a l * b l' else 0))"
    by (intro sum.cong refl) simp
  also have "\<dots> = (\<Sum>l<m. a l * b l)"
    by (intro sum.cong refl) (simp add: sum.delta)
  finally show ?thesis .
qed

lemma procrustes_expand:
  fixes C T W :: "nat \<Rightarrow> nat \<Rightarrow> real"
  assumes W: "\<And>l l'. l < m \<Longrightarrow> l' < m \<Longrightarrow> (\<Sum>i<n. W i l * W i l') = (if l = l' then 1 else 0)"
  shows "(\<Sum>i<n. \<Sum>j<k. (C i j - (\<Sum>l<m. W i l * T l j))\<^sup>2)
       = (\<Sum>i<n. \<Sum>j<k. (C i j)\<^sup>2) - 2 * (\<Sum>i<n. \<Sum>l<m. W i l * (\<Sum>j<k. C i j * T l j))
         + (\<Sum>j<k. \<Sum>l<m. (T l j)\<^sup>2)"
proof -
  have quad: "(\<Sum>i<n. \<Sum>j<k. (\<Sum>l<m. W i l * T l j)\<^sup>2) = (\<Sum>j<k. \<Sum>l<m. (T l j)\<^sup>2)"
  proof -
    have "(\<Sum>i<n. \<Sum>j<k. (\<Sum>l<m. W i l * T l j)\<^sup>2)
        = (\<Sum>j<k. \<Sum>i<n. (\<Sum>l<m. W i l * T l j) * (\<Sum>l<m. W i l * T l j))"
      by (subst sum.swap) (simp add: power2_eq_square)
    also have "\<dots> = (\<Sum>j<k. \<Sum>l<m. T l j * T l j)"
      by (intro sum.cong refl isometry_sum W)
    finally show ?thesis by (simp add: power2_eq_square)
  qed
  have cross: "(\<Sum>i<n. \<Sum>j<k. C i j * (\<Sum>l<m. W i l * T l j))
             = (\<Sum>i<n. \<Sum>l<m. W i l * (\<Sum>j<k. C i j * T l j))"
  proof (rule sum.cong[OF refl])
    fix i
    have "(\<Sum>j<k. C i j * (\<Sum>l<m. W i l * T l j)) = (\<Sum>j<k. \<Sum>l<m. W i l * (C i j * T l j))"
      by (simp add: sum_distrib_left mult_ac)
    also have "\<dots> = (\<Sum>l<m. \<Sum>j<k. W i l * (C i j * T l j))"
      by (rule sum.swap)
    also have "\<dots> = (\<Sum>l<m. W i l * (\<Sum>j<k. C i j * T l j))"
      by (simp add: sum_distrib_left)
    finally show "(\<Sum>j<k. C i j * (\<Sum>l<m. W i l * T l j)) = (\<Sum>l<m. W i l * (\<Sum>j<k. C i j * T l j))" .
  qed
  have "(\<Sum>i<n. \<Sum>j<k. (C i j - (\<Sum>l<m. W i l * T l j))\<^sup>2)
      = (\<Sum>i<n. \<Sum>j<k. ((C i j)\<^sup>2 - 2 * (C i j * (\<Sum>l<m. W i l * T l j)) + (\<Sum>l<m. W i l * T l j)\<^sup>2))"
    by (intro sum.cong refl) (simp add: power2_diff)
  also have "\<dots> = (\<Sum>i<n. \<Sum>j<k. (C i j)\<^sup>2) - 2 * (\<Sum>i<n. \<Sum>j<k. C i j * (\<Sum>l<m. W i l * T l j))
         + (\<Sum>i<n. \<Sum>j<k. (\<Sum>l<m. W i l * T l j)\<^sup>2)"
    by (simp add: sum.distrib sum_subtractf sum_distrib_left)
  finally show ?thesis by (simp add: quad cross)
qed

lemma unit_dot_le_one:
  fixes u w :: "nat \<Rightarrow> real"
  assumes "(\<Sum>i<n. u i * u i) = 1" and "(\<Sum>i<n. w i * w i) = 1"
  shows "(\<Sum>i<n. u i * w i) \<le> 1"
proof -
  have "0 \<le> (\<Sum>i<n. (u i - w i)\<^sup>2)" by (intro sum_nonneg) simp
  also have "\<dots> = (\<Sum>i<n. u i * u i - 2 * (u i * w i) + w i * w i)"
    by (rule sum.cong[OF refl]) (simp add: power2_eq_square algebra_simps)
  also have "\<dots> = (\<Sum>i<n. u i * u i) - (\<Sum>i<n. 2 * (u i * w i)) + (\<Sum>i<n. w i * w i)"
    by (simp add: sum.distrib sum_subtractf)
  also have "(\<Sum>i<n. 2 * (u i * w i)) = 2 * (\<Sum>i<n. u i * w i)"
    by (simp add: sum_distrib_left)
  finally show ?thesis using assms by simp
qed

lemma procrustes_inner_rewrite:
  fixes U Vh W :: "nat \<Rightarrow> nat \<Rightarrow> real" and s :: "nat \<Rightarrow> real"
  shows "(\<Sum>i<n. \<Sum>l<m. W i l * (\<Sum>a<m. U i a * s a * Vh a l))
       = (\<Sum>a<m. s a * (\<Sum>i<n. U i a * (\<Sum>l<m. W i l * Vh a l)))"
proof -
  have "(\<Sum>i<n. \<Sum>l<m. W i l * (\<Sum>a<m. U i a * s a * Vh a l))
      = (\<Sum>i<n. \<Sum>l<m. \<Sum>a<m. s a * (U i a * (W i l * Vh a l)))"
    by (simp add: sum_distrib_left mult_ac)
  also have "\<dots> = (\<Sum>i<n. \<Sum>a<m. \<Sum>l<m. s a * (U i a * (W i l * Vh a l)))"
    by (rule sum.cong[OF refl]) (rule sum.swap)
  also have "\<dots> = (\<Sum>a<m. \<Sum>i<n. \<Sum>l<m. s a * (U i a * (W i l * Vh a l)))"
    by (rule sum.swap)
  also have "\<dots> = (\<Sum>a<m. s a * (\<Sum>i<n. U i a * (\<Sum>l<m. W i l * Vh a l)))"
    by (simp add: sum_distrib_left)
  finally show ?thesis .
qed

lemma procrustes_inner_le:
  fixes U Vh W :: "nat \<Rightarrow> nat \<Rightarrow> real" and s :: "nat \<Rightarrow> real"
  assumes s: "\<And>a. a < m \<Longrightarrow> 0 \<le> s a"
      and U: "\<And>a. a < m \<Longrightarrow> (\<Sum>i<n. U i a * U i a) = 1"
      and VhR: "\<And>a. a < m \<Longrightarrow> (\<Sum>l<m. Vh a l * Vh a l) = 1"
      and W: "\<And>l l'. l < m \<Longrightarrow> l' < m \<Longrightarrow> (\<Sum>i<n. W i l * W i l') = (if l = l' then 1 else 0)"
  shows "(\<Sum>i<n. \<Sum>l<m. W i l * (\<Sum>a<m. U i a * s a * Vh a l)) \<le> (\<Sum>a<m. s a)"
proof -
  have "(\<Sum>a<m. s a * (\<Sum>i<n. U i a * (\<Sum>l<m. W i l * Vh a l))) \<le> (\<Sum>a<m. s a * 1)"
  proof (intro sum_mono mult_left_mono)
    fix a assume "a \<in> {..<m}"
    then have a: "a < m" by simp
    have "(\<Sum>i<n. (\<Sum>l<m. W i l * Vh a l) * (\<Sum>l<m. W i l * Vh a l)) = (\<Sum>l<m. Vh a l * Vh a l)"
      by (rule isometry_sum) (rule W)
    then have "(\<Sum>i<n. (\<Sum>l<m. W i l * Vh a l) * (\<Sum>l<m. W i l * Vh a l)) = 1"
      using VhR[OF a] by simp
    then show "(\<Sum>i<n. U i a * (\<Sum>l<m. W i l * Vh a l)) \<le> 1"
      using U[OF a] by (intro unit_dot_le_one)
    show "0 \<le> s a" using s[OF a] .
  qed
  then show ?thesis by (simp add: procrustes_inner_rewrite)
qed

lemma procrustes_inner_eq:
  fixes U Vh :: "nat \<Rightarrow> nat \<Rightarrow> real" and s :: "nat \<Rightarrow> real"
  assumes U: "\<And>a. a < m \<Longrightarrow> (\<Sum>i<n. U i a * U i a) = 1"
      and VhR: "\<And>a b. a < m \<Longrightarrow> b < m \<Longrightarrow> (\<Sum>l<m. Vh a l * Vh b l) = (if a = b then 1 else 0)"
  shows "(\<Sum>i<n. \<Sum>l<m. (\<Sum>b<m. U i b * Vh b l) * (\<Sum>a<m. U i a * s a * Vh a l)) = (\<Sum>a<m. s a)"
proof -
  have w: "(\<Sum>l<m. (\<Sum>b<m. U i b * Vh b l) * Vh a l) = U i a" if a: "a < m" for i a
  proof -
    have "(\<Sum>l<m. (\<Sum>b<m. U i b * Vh b l) * Vh a l) = (\<Sum>l<m. \<Sum>b<m. U i b * (Vh a l * Vh b l))"
      by (rule sum.cong[OF refl]) (simp add: sum_distrib_left sum_distrib_right mult_ac)
    also have "\<dots> = (\<Sum>b<m. \<Sum>l<m. U i b * (Vh a l * Vh b l))"
      by (rule sum.swap)
    also have "\<dots> = (\<Sum>b<m. U i b * (\<Sum>l<m. Vh a l * Vh b l))"
      by (simp add: sum_distrib_left)
    also have "\<dots> = (\<Sum>b<m. U i b * (if a = b then 1 else 0))"
      by (intro sum.cong refl) (simp add: VhR a)
    also have "\<dots> = (\<Sum>b<m. if a = b then U i b else 0)"
      by (intro sum.cong refl) simp
    also have "\<dots> = U i a"
      using a by (simp add: sum.delta')
    finally show ?thesis .
  qed
  have "(\<Sum>a<m. s a * (\<Sum>i<n. U i a * (\<Sum>l<m. (\<Sum>b<m. U i b * Vh b l) * Vh a l))) = (\<Sum>a<m. s a * 1)"
    by (intro sum.cong refl) (simp add: w U)
  then show ?thesis by (simp add: procrustes_inner_rewrite)
qed

lemma product_orthonormal:
  fixes U Vh :: "nat \<Rightarrow> nat \<Rightarrow> real"
  assumes U: "\<And>a b. a < m \<Longrightarrow> b < m \<Longrightarrow> (\<Sum>i<n. U i a * U i b) = (if a = b then 1 else 0)"
      and VhC: "\<And>l l'. l < m \<Longrightarrow> l' < m \<Longrightarrow> (\<Sum>a<m. Vh a l * Vh a l') = (if l = l' then 1 else 0)"
      and l: "l < m" "l' < m"
  shows "(\<Sum>i<n. (\<Sum>a<m. U i a * Vh a l) * (\<Sum>a<m. U i a * Vh a l')) = (if l = l' then 1 else 0)"
proof -
  have "(\<Sum>i<n. (\<Sum>a<m. U i a * Vh a l) * (\<Sum>a<m. U i a * Vh a l')) = (\<Sum>a<m. Vh a l * Vh a l')"
    by (rule isometry_sum) (rule U)
  then show ?thesis using VhC[OF l] by simp
qed

lemma procrustes_sums:
  fixes C T U Vh W :: "nat \<Rightarrow> nat \<Rightarrow> real" and s :: "nat \<Rightarrow> real"
  assumes M: "\<And>i l. i < n \<Longrightarrow> l < m \<Longrightarrow> (\<Sum>j<k. C i j * T l j) = (\<Sum>a<m. U i a * s a * Vh a l)"
      and s: "\<And>a. a < m \<Longrightarrow> 0 \<le> s a"
      and U: "\<And>a b. a < m \<Longrightarrow> b < m \<Longrightarrow> (\<Sum>i<n. U i a * U i b) = (if a = b then 1 else 0)"
      and VhR: "\<And>a b. a < m \<Longrightarrow> b < m \<Longrightarrow> (\<Sum>l<m. Vh a l * Vh b l) = (if a = b then 1 else 0)"
      and VhC: "\<And>l l'. l < m \<Longrightarrow> l' < m \<Longrightarrow> (\<Sum>a<m. Vh a l * Vh a l') = (if l = l' then 1 else 0)"
      and W: "\<And>l l'. l < m \<Longrightarrow> l' < m \<Longrightarrow> (\<Sum>i<n. W i l * W i l') = (if l = l' then 1 else 0)"
  shows "(\<Sum>i<n. \<Sum>j<k. (C i j - (\<Sum>l<m. (\<Sum>a<m. U i a * Vh a l) * T l j))\<^sup>2)
       \<le> (\<Sum>i<n. \<Sum>j<k. (C i j - (\<Sum>l<m. W i l * T l j))\<^sup>2)"
proof -
  let ?Om = "\<lambda>i l. \<Sum>a<m. U i a * Vh a l"
  have Om: "(\<Sum>i<n. ?Om i l * ?Om i l') = (if l = l' then 1 else 0)" if "l < m" "l' < m" for l l'
    using product_orthonormal[where m=m and n=n and U=U and Vh=Vh and l=l and l'=l'] U VhC that by blast
  have U1: "(\<Sum>i<n. U i a * U i a) = 1" if "a < m" for a using U[OF that that] by simp
  have V1: "(\<Sum>l<m. Vh a l * Vh a l) = 1" if "a < m" for a using VhR[OF that that] by simp
  have Mrew: "(\<Sum>i<n. \<Sum>l<m. X i l * (\<Sum>j<k. C i j * T l j))
            = (\<Sum>i<n. \<Sum>l<m. X i l * (\<Sum>a<m. U i a * s a * Vh a l))" for X :: "nat \<Rightarrow> nat \<Rightarrow> real"
    by (intro sum.cong refl) (simp add: M)
  have le: "(\<Sum>i<n. \<Sum>l<m. W i l * (\<Sum>j<k. C i j * T l j)) \<le> (\<Sum>a<m. s a)"
    unfolding Mrew by (rule procrustes_inner_le[OF s U1 V1 W])
  have eq: "(\<Sum>i<n. \<Sum>l<m. ?Om i l * (\<Sum>j<k. C i j * T l j)) = (\<Sum>a<m. s a)"
    unfolding Mrew by (rule procrustes_inner_eq[OF U1 VhR])
  have eW: "(\<Sum>i<n. \<Sum>j<k. (C i j - (\<Sum>l<m. W i l * T l j))\<^sup>2)
       = (\<Sum>i<n. \<Sum>j<k. (C i j)\<^sup>2) - 2 * (\<Sum>i<n. \<Sum>l<m. W i l * (\<Sum>j<k. C i j * T l j))
         + (\<Sum>j<k. \<Sum>l<m. (T l j)\<^sup>2)"
    by (rule procrustes_expand) (rule W)
  have eOm: "(\<Sum>i<n. \<Sum>j<k. (C i j - (\<Sum>l<m. ?Om i l * T l j))\<^sup>2)
       = (\<Sum>i<n. \<Sum>j<k. (C i j)\<^sup>2) - 2 * (\<Sum>i<n. \<Sum>l<m. ?Om i l * (\<Sum>j<k. C i j * T l j))
         + (\<Sum>j<k. \<Sum>l<m. (T l j)\<^sup>2)"
    by (rule procrustes_expand) (rule Om)
  show ?thesis
    using le eq eW eOm by linarith
qed

lemma gram_cols:
  assumes "is_mat n m A" "0 < n" "mat_mul (transpose_mat A) A = identity_mat m" "a < m" "b < m"
  shows "(\<Sum>i<n. A ! i ! a * A ! i ! b) = (if a = b then 1 else 0)"
proof -
  have T: "is_mat m n (transpose_mat A)" using assms by (simp add: is_mat_transpose)
  have "mat_mul (transpose_mat A) A ! a ! b = (\<Sum>i<n. transpose_mat A ! a ! i * A ! i ! b)"
    by (rule mat_mul_nth[OF T assms(1,2,4,5)])
  also have "\<dots> = (\<Sum>i<n. A ! i ! a * A ! i ! b)"
    using assms by (intro sum.cong refl) (simp add: transpose_nth)
  finally show ?thesis using assms by (simp add: identity_nth)
qed

lemma gram_colsI:
  assumes "is_mat n m A" "0 < n"
    and "\<And>a b. a < m \<Longrightarrow> b < m \<Longrightarrow> (\<Sum>i<n. A ! i ! a * A ! i ! b) = (if a = b then 1 else 0)"
  shows "mat_mul (transpose_mat A) A = identity_mat m"
proof (rule mat_eqI[where n=m and m=m])
  have T: "is_mat m n (transpose_mat A)" using assms by (simp add: is_mat_transpose)
  show "is_mat m m (mat_mul (transpose_mat A) A)"
    using is_mat_mul[OF T assms(1,2)] .
  show "is_mat m m (identity_mat m)" by (rule is_mat_identity)
  fix a b assume ab: "a < m" "b < m"
  have "mat_mul (transpose_mat A) A ! a ! b = (\<Sum>i<n. transpose_mat A ! a ! i * A ! i ! b)"
    by (rule mat_mul_nth[OF T assms(1,2) ab])
  also have "\<dots> = (\<Sum>i<n. A ! i ! a * A ! i ! b)"
    using assms ab by (intro sum.cong refl) (simp add: transpose_nth)
  finally show "mat_mul (transpose_mat A) A ! a ! b = identity_mat m ! a ! b"
    using ab assms(3) by (simp add: identity_nth)
qed

lemma gram_rows:
  assumes "is_mat d m A" "0 < d" "0 < m" "mat_mul A (transpose_mat A) = identity_mat d" "a < d" "b < d"
  shows "(\<Sum>l<m. A ! a ! l * A ! b ! l) = (if a = b then 1 else 0)"
proof -
  have T: "is_mat m d (transpose_mat A)" using assms by (simp add: is_mat_transpose)
  have "mat_mul A (transpose_mat A) ! a ! b = (\<Sum>l<m. A ! a ! l * transpose_mat A ! l ! b)"
    by (rule mat_mul_nth[OF assms(1) T assms(3,5,6)])
  also have "\<dots> = (\<Sum>l<m. A ! a ! l * A ! b ! l)"
    using assms by (intro sum.cong refl) (simp add: transpose_nth)
  finally show ?thesis using assms by (simp add: identity_nth)
qed

lemma is_mat_diag: "is_mat (length sv) (length sv) (diag_mat sv)"
  by (simp add: is_mat_def diag_mat_def)

lemma diag_nth:
  "i < length sv \<Longrightarrow> j < length sv \<Longrightarrow> diag_mat sv ! i ! j = (if i = j then sv ! i else 0)"
  by (simp add: diag_mat_def)

lemma svd_product_nth:
  assumes U: "is_mat n m Um" and V: "is_mat m k Vm" and s: "length sv = m"
    and pos: "0 < m" and i: "i < n" and l: "l < k"
  shows "mat_mul (mat_mul Um (diag_mat sv)) Vm ! i ! l = (\<Sum>a<m. Um ! i ! a * sv ! a * Vm ! a ! l)"
proof -
  have D: "is_mat m m (diag_mat sv)" using is_mat_diag[of sv] s by simp
  have UD: "is_mat n m (mat_mul Um (diag_mat sv))" by (rule is_mat_mul[OF U D pos])
  have ud: "mat_mul Um (diag_mat sv) ! i ! a = Um ! i ! a * sv ! a" if a: "a < m" for a
  proof -
    have "mat_mul Um (diag_mat sv) ! i ! a = (\<Sum>b<m. Um ! i ! b * diag_mat sv ! b ! a)"
      by (rule mat_mul_nth[OF U D pos i a])
    also have "\<dots> = (\<Sum>b<m. if b = a then Um ! i ! a * sv ! a else 0)"
      using a s by (intro sum.cong refl) (simp add: diag_nth)
    also have "\<dots> = Um ! i ! a * sv ! a"
      using a by (simp add: sum.delta)
    finally show ?thesis .
  qed
  have "mat_mul (mat_mul Um (diag_mat sv)) Vm ! i ! l
      = (\<Sum>a<m. mat_mul Um (diag_mat sv) ! i ! a * Vm ! a ! l)"
    by (rule mat_mul_nth[OF UD V pos i l])
  also have "\<dots> = (\<Sum>a<m. Um ! i ! a * sv ! a * Vm ! a ! l)"
    by (intro sum.cong refl) (simp add: ud)
  finally show ?thesis .
qed

lemma residual_sumsq:
  assumes C: "is_mat n k C" and W: "is_mat n m W" and T: "is_mat m k T" and pos: "0 < m"
  shows "sumsq (map2 (map2 (-)) C (mat_mul W T))
       = (\<Sum>i<n. \<Sum>j<k. (C ! i ! j - (\<Sum>l<m. W ! i ! l * T ! l ! j))\<^sup>2)"
proof -
  have WT: "is_mat n k (mat_mul W T)" by (rule is_mat_mul[OF W T pos])
  have D: "is_mat n k (map2 (map2 (-)) C (mat_mul W T))" by (rule is_mat_map2[OF C WT])
  show ?thesis
    unfolding sumsq_sum[OF D]
    by (intro sum.cong refl) (simp add: map2_nth[OF C WT] mat_mul_nth[OF W T pos])
qed

lemma procrustes_optimal:
  assumes C: "is_mat n k C" and T: "is_mat m k T"
    and pos: "0 < n" "0 < m" "0 < k" and mn: "m \<le> n"
    and svd: "thin_svd (mat_mul C (transpose_mat T)) Um sv Vm"
  shows "is_mat n m (mat_mul Um Vm)"
    and "mat_mul (transpose_mat (mat_mul Um Vm)) (mat_mul Um Vm) = identity_mat m"
    and "is_mat n m W \<Longrightarrow> mat_mul (transpose_mat W) W = identity_mat m \<Longrightarrow>
           procrustes_residual C (mat_mul Um Vm) T \<le> procrustes_residual C W T"
proof -
  let ?M = "mat_mul C (transpose_mat T)"
  have Tt: "is_mat k m (transpose_mat T)" using T pos by (simp add: is_mat_transpose)
  have M: "is_mat n m ?M" by (rule is_mat_mul[OF C Tt pos(3)])
  have dims: "nrows ?M = n" "ncols ?M = m" "min n m = m"
    using M pos mn by (simp_all add: is_mat_nrows is_mat_ncols)
  from svd have U: "is_mat n m Um" and s: "length sv = m" and V: "is_mat m m Vm"
    and s0: "\<forall>x \<in> set sv. 0 \<le> x"
    and UtU: "mat_mul (transpose_mat Um) Um = identity_mat m"
    and VVt: "mat_mul Vm (transpose_mat Vm) = identity_mat m"
    and VtV: "mat_mul (transpose_mat Vm) Vm = identity_mat m"
    and fact: "mat_mul (mat_mul Um (diag_mat sv)) Vm = ?M"
    unfolding thin_svd_def Let_def dims by simp_all
  let ?Om = "mat_mul Um Vm"
  show Om: "is_mat n m ?Om" by (rule is_mat_mul[OF U V pos(2)])
  have Ucols: "(\<Sum>i<n. Um ! i ! a * Um ! i ! b) = (if a = b then 1 else 0)"
    if "a < m" "b < m" for a b
    by (rule gram_cols[OF U pos(1) UtU that])
  have Vrows: "(\<Sum>l<m. Vm ! a ! l * Vm ! b ! l) = (if a = b then 1 else 0)"
    if "a < m" "b < m" for a b
    by (rule gram_rows[OF V pos(2) pos(2) VVt that])
  have Vcols: "(\<Sum>a<m. Vm ! a ! l * Vm ! a ! l') = (if l = l' then 1 else 0)"
    if "l < m" "l' < m" for l l'
    by (rule gram_cols[OF V pos(2) VtV that])
  have Om_nth: "?Om ! i ! l = (\<Sum>a<m. Um ! i ! a * Vm ! a ! l)" if "i < n" "l < m" for i l
    by (rule mat_mul_nth[OF U V pos(2) that])
  have Om_cols: "(\<Sum>i<n. ?Om ! i ! l * ?Om ! i ! l') = (if l = l' then 1 else 0)"
    if l: "l < m" "l' < m" for l l'
  proof -
    have "(\<Sum>i<n. ?Om ! i ! l * ?Om ! i ! l')
        = (\<Sum>i<n. (\<Sum>a<m. Um ! i ! a * Vm ! a ! l) * (\<Sum>a<m. Um ! i ! a * Vm ! a ! l'))"
      using l by (intro sum.cong refl) (simp add: Om_nth)
    also have "\<dots> = (if l = l' then 1 else 0)"
      by (rule product_orthonormal[where U="\<lambda>i a. Um ! i ! a" and Vh="\<lambda>a l. Vm ! a ! l", OF Ucols Vcols l])
    finally show ?thesis .
  qed
  show "mat_mul (transpose_mat ?Om) ?Om = identity_mat m"
    by (rule gram_colsI[OF Om pos(1) Om_cols])
  assume W: "is_mat n m W" and WtW: "mat_mul (transpose_mat W) W = identity_mat m"
  have Wcols: "(\<Sum>i<n. W ! i ! l * W ! i ! l') = (if l = l' then 1 else 0)"
    if "l < m" "l' < m" for l l'
    by (rule gram_cols[OF W pos(1) WtW that])
  have Mnth: "(\<Sum>j<k. C ! i ! j * T ! l ! j) = (\<Sum>a<m. Um ! i ! a * sv ! a * Vm ! a ! l)"
    if il: "i < n" "l < m" for i l
  proof -
    have "(\<Sum>a<m. Um ! i ! a * sv ! a * Vm ! a ! l) = ?M ! i ! l"
      using svd_product_nth[OF U V s pos(2) il] fact by simp
    also have "\<dots> = (\<Sum>j<k. C ! i ! j * transpose_mat T ! j ! l)"
      by (rule mat_mul_nth[OF C Tt pos(3) il])
    also have "\<dots> = (\<Sum>j<k. C ! i ! j * T ! l ! j)"
      using il T by (intro sum.cong refl) (simp add: transpose_nth)
    finally show ?thesis by simp
  qed
  have snn: "0 \<le> sv ! a" if "a < m" for a using s0 s that by simp
  have "(\<Sum>i<n. \<Sum>j<k. (C ! i ! j - (\<Sum>l<m. (\<Sum>a<m. Um ! i ! a * Vm ! a ! l) * T ! l ! j))\<^sup>2)
       \<le> (\<Sum>i<n. \<Sum>j<k. (C ! i ! j - (\<Sum>l<m. W ! i ! l * T ! l ! j))\<^sup>2)"
    by (rule procrustes_sums[where U="\<lambda>i a. Um ! i ! a" and Vh="\<lambda>a l. Vm ! a ! l"
          and s="\<lambda>a. sv ! a" and C="\<lambda>i j. C ! i ! j" and T="\<lambda>l j. T ! l ! j" and W="\<lambda>i l. W ! i ! l",
          OF Mnth snn Ucols Vrows Vcols Wcols])
  also have "(\<Sum>i<n. \<Sum>j<k. (C ! i ! j - (\<Sum>l<m. (\<Sum>a<m. Um ! i ! a * Vm ! a ! l) * T ! l ! j))\<^sup>2)
       = (\<Sum>i<n. \<Sum>j<k. (C ! i ! j - (\<Sum>l<m. ?Om ! i ! l * T ! l ! j))\<^sup>2)"
    by (intro sum.cong refl) (simp add: Om_nth)
  finally have "sumsq (map2 (map2 (-)) C (mat_mul ?Om T)) \<le> sumsq (map2 (map2 (-)) C (mat_mul W T))"
    unfolding residual_sumsq[OF C Om T pos(2)] residual_sumsq[OF C W T pos(2)] .
  then show "procrustes_residual C ?Om T \<le> procrustes_residual C W T"
    by (simp add: procrustes_residual_def frobenius_norm_def)
qed

lemma matmul_Inr: "matmul A B = Inr X \<Longrightarrow> X = mat_mul A B \<and> ncols A = nrows B"
  by (auto simp: matmul_def split: if_splits)

lemma length_mat_mul [simp]: "length (mat_mul A B) = length A"
  by (simp add: mat_mul_def)

lemma ncols_mat_mul: "A \<noteq> [] \<Longrightarrow> ncols (mat_mul A B) = ncols B"
  by (cases A) (simp_all add: mat_mul_def ncols_def)

lemma procrustes_target_Inr:
  assumes Sh: "is_mat rr k (Shat st)" and Xi: "length (Xi st) = qq" and pos: "0 < rr" "0 < qq"
    and T: "procrustes_target st = Inr T"
  shows "\<exists>XP. matmul (Xi st) (Poly st) = Inr XP \<and> is_mat qq k XP \<and> T = Shat st @ XP \<and>
           is_mat (rr + qq) k T"
proof -
  from T obtain XP where XP: "matmul (Xi st) (Poly st) = Inr XP"
    and cat: "concatenate [Shat st, XP] = Inr T"
    by (auto simp: procrustes_target_def bindE_eq_Inr)
  have eq: "XP = mat_mul (Xi st) (Poly st)" using matmul_Inr[OF XP] by simp
  have ne: "Xi st \<noteq> []" using Xi pos by auto
  from cat have Tcat: "T = Shat st @ XP" and nc: "ncols XP = ncols (Shat st)"
    by (auto simp: concatenate_def split: if_splits)
  have "ncols (Shat st) = k" using Sh pos by (simp add: is_mat_ncols)
  then have "ncols (Poly st) = k" using nc eq ncols_mat_mul[OF ne] by simp
  then have shape: "is_mat qq k XP"
    using is_mat_mat_mul[of "Xi st" "Poly st"] Xi eq by simp
  show ?thesis
    using XP shape Tcat is_mat_append[OF Sh shape] by blast
qed

lemma procrustes_omega_Inr:
  assumes S: "is_mat n k (S E)" "is_mat n k (Sref E)"
    and Sh: "is_mat rr k (Shat st)" and Xi: "length (Xi st) = qq" and pos: "0 < rr" "0 < qq"
    and Om: "procrustes_omega L E st = Inr Omega"
  shows "\<exists>XP Um sv Vm. matmul (Xi st) (Poly st) = Inr XP \<and> is_mat qq k XP \<and>
           linalg_svd L (mat_mul (map2 (map2 (-)) (S E) (Sref E)) (transpose_mat (Shat st @ XP)))
             = Inr (Um, sv, Vm) \<and>
           Omega = mat_mul Um Vm"
proof -
  have C: "elementwise (-) (S E) (Sref E) = Inr (map2 (map2 (-)) (S E) (Sref E))"
    by (rule elementwise_ok[OF S])
  from Om obtain T M Um sv Vm where
    T: "procrustes_target st = Inr T"
    and M: "matmul (map2 (map2 (-)) (S E) (Sref E)) (transpose_mat T) = Inr M"
    and svd: "linalg_svd L M = Inr (Um, sv, Vm)"
    and prod: "matmul Um Vm = Inr Omega"
    by (auto simp: procrustes_omega_def C bindE_eq_Inr)
  from procrustes_target_Inr[OF Sh Xi pos T] obtain XP where
    XP: "matmul (Xi st) (Poly st) = Inr XP" "is_mat qq k XP" "T = Shat st @ XP"
    by blast
  show ?thesis
    using XP svd matmul_Inr[OF M] matmul_Inr[OF prod] by auto
qed

text \<open>
  C1. In every iteration, step 1 stacks \<open>Shat\<close> on top of \<open>Xi Poly\<close> into the target
  \<open>T\<close> (\<open>r + q\<close> rows, \<open>k\<close> columns), takes the singular value decomposition
  \<open>(Um, sv, Vm)\<close> of \<open>(S - Sref) T\<^sup>T\<close>, sets \<open>Omega = Um Vm\<close>, and splits it into
  \<open>Vr\<close> (the first \<open>r\<close> columns) and \<open>Vbar\<close> (the next \<open>q\<close>). When the library's
  decomposition is one, \<open>Omega\<close> has orthonormal columns and no matrix \<open>W\<close> with
  orthonormal columns has a smaller \<open>\<parallel>(S - Sref) - W T\<parallel>\<close>.
\<close>

theorem step1_procrustes:
  assumes S: "is_mat n k (S E)" "is_mat n k (Sref E)"
    and Sh: "is_mat (r E) k (Shat st)" and Xi: "length (Xi st) = q E"
    and pos: "0 < r E" "0 < q E" "0 < k" and rq: "r E + q E \<le> n"
    and svd: "svd_contract L"
    and step: "step1 L E st = Inr st'"
  shows "\<exists>XP Um sv Vm.
           matmul (Xi st) (Poly st) = Inr XP \<and> is_mat (r E + q E) k (Shat st @ XP) \<and>
           linalg_svd L (mat_mul (map2 (map2 (-)) (S E) (Sref E)) (transpose_mat (Shat st @ XP)))
             = Inr (Um, sv, Vm) \<and>
           Vr st' = cols_slice 0 (r E) (mat_mul Um Vm) \<and>
           Vbar st' = cols_slice (r E) (r E + q E) (mat_mul Um Vm) \<and>
           is_mat n (r E + q E) (mat_mul Um Vm) \<and> orthonormal_cols (mat_mul Um Vm) \<and>
           (\<forall>W. is_mat n (r E + q E) W \<and> orthonormal_cols W \<longrightarrow>
              procrustes_residual (map2 (map2 (-)) (S E) (Sref E)) (mat_mul Um Vm) (Shat st @ XP)
              \<le> procrustes_residual (map2 (map2 (-)) (S E) (Sref E)) W (Shat st @ XP))"
proof -
  let ?C = "map2 (map2 (-)) (S E) (Sref E)"
  let ?m = "r E + q E"
  from step obtain Omega where Om: "procrustes_omega L E st = Inr Omega"
    and st': "st' = st\<lparr>Vr := cols_slice 0 (r E) Omega, Vbar := cols_slice (r E) (r E + q E) Omega\<rparr>"
    by (auto simp: step1_def bindE_eq_Inr)
  from procrustes_omega_Inr[OF S Sh Xi pos(1,2) Om] obtain XP Um sv Vm where
    XP: "matmul (Xi st) (Poly st) = Inr XP" "is_mat (q E) k XP"
    and lib: "linalg_svd L (mat_mul ?C (transpose_mat (Shat st @ XP))) = Inr (Um, sv, Vm)"
    and Omega: "Omega = mat_mul Um Vm"
    by blast
  have C: "is_mat n k ?C" by (rule is_mat_map2[OF S])
  have T: "is_mat ?m k (Shat st @ XP)" by (rule is_mat_append[OF Sh XP(2)])
  have n: "0 < n" and m: "0 < ?m" using pos rq by simp_all
  have thin: "thin_svd (mat_mul ?C (transpose_mat (Shat st @ XP))) Um sv Vm"
    using svd lib by (simp add: svd_contract_def)
  note opt = procrustes_optimal[OF C T n m pos(3) rq thin]
  have nc: "ncols (mat_mul Um Vm) = ?m" using opt(1) n by (simp add: is_mat_ncols)
  have orth: "orthonormal_cols (mat_mul Um Vm)"
    using opt(2) by (simp add: orthonormal_cols_def nc)
  have best: "procrustes_residual ?C (mat_mul Um Vm) (Shat st @ XP)
              \<le> procrustes_residual ?C W (Shat st @ XP)"
    if "is_mat n ?m W \<and> orthonormal_cols W" for W
  proof -
    from that have W: "is_mat n ?m W" and "orthonormal_cols W" by simp_all
    then have "mat_mul (transpose_mat W) W = identity_mat ?m"
      using n by (simp add: orthonormal_cols_def is_mat_ncols)
    with W show ?thesis by (rule opt(3))
  qed
  show ?thesis
    using XP(1) T lib opt(1) orth best st' Omega by (intro exI[of _ XP] exI[of _ Um] exI[of _ sv] exI[of _ Vm]) simp
qed

lemma is_mat_zero: "is_mat n m (zero_mat n m)"
  by (simp add: is_mat_def zero_mat_def)

lemma zero_nth: "i < n \<Longrightarrow> j < m \<Longrightarrow> zero_mat n m ! i ! j = 0"
  by (simp add: zero_mat_def)

lemma slices_gram:
  assumes Om: "is_mat n m Om" and n: "0 < n"
    and orth: "mat_mul (transpose_mat Om) Om = identity_mat m"
    and a: "a + w \<le> m" and b: "b + w' \<le> m" and w: "0 < w" "0 < w'"
    and i: "i < w" and j: "j < w'"
  shows "is_mat w w' (mat_mul (transpose_mat (cols_slice a (a + w) Om)) (cols_slice b (b + w') Om))"
    and "mat_mul (transpose_mat (cols_slice a (a + w) Om)) (cols_slice b (b + w') Om) ! i ! j
           = (if a + i = b + j then 1 else 0)"
proof -
  let ?X = "cols_slice a (a + w) Om" and ?Y = "cols_slice b (b + w') Om"
  have wa: "min (a + w) m - a = w" and wb: "min (b + w') m - b = w'" using a b by simp_all
  have X: "is_mat n w ?X" using is_mat_cols_slice[OF Om, of "a + w" a] wa by simp
  have Y: "is_mat n w' ?Y" using is_mat_cols_slice[OF Om, of "b + w'" b] wb by simp
  have Xt: "is_mat w n (transpose_mat ?X)" using X n by (simp add: is_mat_transpose)
  show "is_mat w w' (mat_mul (transpose_mat ?X) ?Y)" by (rule is_mat_mul[OF Xt Y n])
  have "mat_mul (transpose_mat ?X) ?Y ! i ! j = (\<Sum>t<n. transpose_mat ?X ! i ! t * ?Y ! t ! j)"
    by (rule mat_mul_nth[OF Xt Y n i j])
  also have "\<dots> = (\<Sum>t<n. Om ! t ! (a + i) * Om ! t ! (b + j))"
  proof (intro sum.cong refl)
    fix t assume "t \<in> {..<n}"
    then have t: "t < n" by simp
    have "transpose_mat ?X ! i ! t = ?X ! t ! i" by (rule transpose_nth[OF X t i])
    also have "\<dots> = Om ! t ! (a + i)" using cols_slice_nth[OF Om t, of i "a + w" a] i wa by simp
    finally have 1: "transpose_mat ?X ! i ! t = Om ! t ! (a + i)" .
    have 2: "?Y ! t ! j = Om ! t ! (b + j)" using cols_slice_nth[OF Om t, of j "b + w'" b] j wb by simp
    show "transpose_mat ?X ! i ! t * ?Y ! t ! j = Om ! t ! (a + i) * Om ! t ! (b + j)"
      by (simp add: 1 2)
  qed
  also have "\<dots> = (if a + i = b + j then 1 else 0)"
    using a b i j by (intro gram_cols[OF Om n orth]) simp_all
  finally show "mat_mul (transpose_mat ?X) ?Y ! i ! j = (if a + i = b + j then 1 else 0)" .
qed

lemma split_orthonormal:
  assumes Om: "is_mat n (rr + qq) Om" and n: "0 < n"
    and orth: "mat_mul (transpose_mat Om) Om = identity_mat (rr + qq)"
    and pos: "0 < rr" "0 < qq"
  shows "is_mat n rr (cols_slice 0 rr Om)" "is_mat n qq (cols_slice rr (rr + qq) Om)"
    "orthonormal_block rr qq (cols_slice 0 rr Om) (cols_slice rr (rr + qq) Om)"
proof -
  show "is_mat n rr (cols_slice 0 rr Om)"
    using is_mat_cols_slice[OF Om, of rr 0] by simp
  show "is_mat n qq (cols_slice rr (rr + qq) Om)"
    using is_mat_cols_slice[OF Om, of "rr + qq" rr] by simp
  have a: "0 + rr \<le> rr + qq" and b: "rr + qq \<le> rr + qq" by simp_all
  have VV: "mat_mul (transpose_mat (cols_slice 0 rr Om)) (cols_slice 0 rr Om) = identity_mat rr"
  proof (rule mat_eqI[where n=rr and m=rr])
    show "is_mat rr rr (mat_mul (transpose_mat (cols_slice 0 rr Om)) (cols_slice 0 rr Om))"
      using slices_gram(1)[OF Om n orth a a pos(1) pos(1)] pos by simp
    show "is_mat rr rr (identity_mat rr)" by (rule is_mat_identity)
    fix i j assume "i < rr" "j < rr"
    then show "mat_mul (transpose_mat (cols_slice 0 rr Om)) (cols_slice 0 rr Om) ! i ! j = identity_mat rr ! i ! j"
      using slices_gram(2)[OF Om n orth a a pos(1) pos(1), of i j] by (simp add: identity_nth)
  qed
  have BB: "mat_mul (transpose_mat (cols_slice rr (rr + qq) Om)) (cols_slice rr (rr + qq) Om) = identity_mat qq"
  proof (rule mat_eqI[where n=qq and m=qq])
    show "is_mat qq qq (mat_mul (transpose_mat (cols_slice rr (rr + qq) Om)) (cols_slice rr (rr + qq) Om))"
      using slices_gram(1)[OF Om n orth b b pos(2) pos(2)] pos by simp
    show "is_mat qq qq (identity_mat qq)" by (rule is_mat_identity)
    fix i j assume "i < qq" "j < qq"
    then show "mat_mul (transpose_mat (cols_slice rr (rr + qq) Om)) (cols_slice rr (rr + qq) Om) ! i ! j = identity_mat qq ! i ! j"
      using slices_gram(2)[OF Om n orth b b pos(2) pos(2), of i j] by (simp add: identity_nth)
  qed
  have VB: "mat_mul (transpose_mat (cols_slice 0 rr Om)) (cols_slice rr (rr + qq) Om) = zero_mat rr qq"
  proof (rule mat_eqI[where n=rr and m=qq])
    show "is_mat rr qq (mat_mul (transpose_mat (cols_slice 0 rr Om)) (cols_slice rr (rr + qq) Om))"
      using slices_gram(1)[OF Om n orth a b pos(1) pos(2)] pos by simp
    show "is_mat rr qq (zero_mat rr qq)" by (rule is_mat_zero)
    fix i j assume "i < rr" "j < qq"
    then show "mat_mul (transpose_mat (cols_slice 0 rr Om)) (cols_slice rr (rr + qq) Om) ! i ! j = zero_mat rr qq ! i ! j"
      using slices_gram(2)[OF Om n orth a b pos(1) pos(2), of i j] by (simp add: zero_nth)
  qed
  show "orthonormal_block rr qq (cols_slice 0 rr Om) (cols_slice rr (rr + qq) Om)"
    using VV BB VB by (simp add: orthonormal_block_def)
qed

lemma step1_orthonormal:
  assumes S: "is_mat n k (S E)" "is_mat n k (Sref E)"
    and Sh: "is_mat (r E) k (Shat st)" and Xi: "length (Xi st) = q E"
    and pos: "0 < r E" "0 < q E" "0 < k" and rq: "r E + q E \<le> n"
    and svd: "svd_contract L"
    and step: "step1 L E st = Inr st'"
  shows "is_mat n (r E) (Vr st') \<and> is_mat n (q E) (Vbar st') \<and>
         orthonormal_block (r E) (q E) (Vr st') (Vbar st')"
proof -
  let ?C = "map2 (map2 (-)) (S E) (Sref E)"
  let ?m = "r E + q E"
  from step obtain Omega where Om: "procrustes_omega L E st = Inr Omega"
    and st': "st' = st\<lparr>Vr := cols_slice 0 (r E) Omega, Vbar := cols_slice (r E) (r E + q E) Omega\<rparr>"
    by (auto simp: step1_def bindE_eq_Inr)
  from procrustes_omega_Inr[OF S Sh Xi pos(1,2) Om] obtain XP Um sv Vm where
    XP: "is_mat (q E) k XP"
    and lib: "linalg_svd L (mat_mul ?C (transpose_mat (Shat st @ XP))) = Inr (Um, sv, Vm)"
    and Omega: "Omega = mat_mul Um Vm"
    by blast
  have C: "is_mat n k ?C" by (rule is_mat_map2[OF S])
  have T: "is_mat ?m k (Shat st @ XP)" by (rule is_mat_append[OF Sh XP])
  have n: "0 < n" and m: "0 < ?m" using pos rq by simp_all
  have thin: "thin_svd (mat_mul ?C (transpose_mat (Shat st @ XP))) Um sv Vm"
    using svd lib by (simp add: svd_contract_def)
  note opt = procrustes_optimal(1,2)[OF C T n m pos(3) rq thin]
  show ?thesis
    using split_orthonormal[OF opt(1) n opt(2) pos(1,2)] st' Omega by simp
qed

lemma step2_Xi_length:
  assumes "step2_Xi L E Vb PE Po = Inr X"
  shows "length X = ncols Vb"
proof -
  from assms obtain t1 t2 rhs where
    "matmul (transpose_mat Vb) PE = Inr t1" "matmul t1 (transpose_mat Po) = Inr t2"
    "matmul t2 rhs = Inr X"
    by (auto simp: step2_Xi_def bindE_eq_Inr)
  then have "X = mat_mul (mat_mul (mat_mul (transpose_mat Vb) PE) (transpose_mat Po)) rhs"
    by (auto dest!: matmul_Inr)
  then show ?thesis by (simp add: transpose_mat_def)
qed

lemma set_col_shape:
  assumes "is_mat n m A" and "set_col A j v = Inr A'"
  shows "is_mat n m A'"
proof -
  from assms(2) have A': "A' = map2 (\<lambda>row x. row[j := x]) A (bcast (nrows A) v)"
    and v: "length v = nrows A \<or> length v = 1"
    by (auto simp: set_col_def split: if_splits)
  have len: "length (bcast (nrows A) v) = nrows A"
    using v by (auto simp: bcast_def)
  have "length A' = n" using assms(1) len by (simp add: A' is_mat_def nrows_def)
  moreover have "length row = m" if "row \<in> set A'" for row
  proof -
    from that obtain a x where "(a, x) \<in> set (zip A (bcast (nrows A) v))" "row = a[j := x]"
      unfolding A' by auto
    then show ?thesis using assms(1) by (auto simp: is_mat_def dest: set_zip_leftD)
  qed
  ultimately show ?thesis by (simp add: is_mat_def)
qed

lemma step3_snapshots_shape:
  "is_mat n m Sh \<Longrightarrow> step3_snapshots L E st js Sh = Inr Sh' \<Longrightarrow> is_mat n m Sh'"
proof (induction js arbitrary: Sh)
  case Nil
  then show ?case by simp
next
  case (Cons j js)
  from Cons.prems(2) obtain x0 x Sh1 where
    "set_col Sh j x = Inr Sh1" "step3_snapshots L E st js Sh1 = Inr Sh'"
    by (auto split: sum.splits)
  then show ?case using Cons.IH set_col_shape[OF Cons.prems(1)] by blast
qed

lemma am_body_orthonormal:
  assumes S: "is_mat n k (S E)" "is_mat n k (Sref E)"
    and Sh: "is_mat (r E) k (Shat st)" and Xi: "length (Xi st) = q E"
    and pos: "0 < r E" "0 < q E" "0 < k" and rq: "r E + q E \<le> n"
    and svd: "svd_contract L"
    and body: "am_body L E niter st = Inr (brk, st')"
  shows "is_mat n (r E) (Vr st') \<and> is_mat n (q E) (Vbar st') \<and>
         orthonormal_block (r E) (q E) (Vr st') (Vbar st') \<and>
         is_mat (r E) k (Shat st') \<and> length (Xi st') = q E"
proof -
  from body obtain st1 st2 st3 where
    s: "step1 L E st = Inr st1" "step2 L E st1 = Inr st2" "step3 L E st2 = Inr st3"
       "convergence_check E niter st3 = Inr (brk, st')"
    by (auto simp: am_body_def bindE_eq_Inr)
  note o1 = step1_orthonormal[OF S Sh Xi pos rq svd s(1)]
  have n: "0 < n" using pos rq by simp
  from s(2) obtain PE X where X: "step2_Xi L E (Vbar st1) PE (Poly st1) = Inr X"
    and st2: "st2 = st1\<lparr>Xi := X\<rparr>"
    by (auto simp: step2_def bindE_eq_Inr)
  from o1 have vb: "is_mat n (q E) (Vbar st1)" by simp
  have "length X = q E"
    using step2_Xi_length[OF X] is_mat_ncols[OF vb n] by simp
  then have x2: "length (Xi st2) = q E" by (simp add: st2)
  from s(3) obtain Sh' Po' where Sh': "step3_snapshots L E st2 [0..<num_snapshots E] (Shat st2) = Inr Sh'"
    and st3: "st3 = st2\<lparr>Shat := Sh', Poly := Po'\<rparr>"
    by (auto simp: step3_def bindE_eq_Inr)
  have "Shat st2 = Shat st" using step1_frame[OF s(1)] by (simp add: st2)
  then have sh3: "is_mat (r E) k Sh'" using step3_snapshots_shape[OF _ Sh'] Sh by simp
  from s(4) have fin: "Vr st' = Vr st3" "Vbar st' = Vbar st3" "Shat st' = Shat st3" "Xi st' = Xi st3"
    by (auto simp: convergence_check_def bindE_eq_Inr Let_def split: if_splits)
  show ?thesis
    using o1 x2 sh3 by (simp add: fin st3 st2)
qed

lemma am_for_Cons_Inr:
  assumes "am_for L E (niter # rest) st = Inr st'"
  shows "\<exists>brk st1. am_body L E niter st = Inr (brk, st1) \<and>
           (if brk then st' = st1 else am_for L E rest st1 = Inr st')"
proof (cases "am_body L E niter st")
  case (Inl e)
  then show ?thesis using assms by simp
next
  case (Inr bs)
  obtain brk st1 where bs: "bs = (brk, st1)" by (cases bs)
  show ?thesis using assms Inr bs by (cases brk) auto
qed

lemma am_for_orthonormal:
  assumes S: "is_mat n k (S E)" "is_mat n k (Sref E)"
    and pos: "0 < r E" "0 < q E" "0 < k" and rq: "r E + q E \<le> n"
    and svd: "svd_contract L"
  shows "is_mat (r E) k (Shat st) \<Longrightarrow> length (Xi st) = q E \<Longrightarrow>
         am_for L E ns st = Inr st' \<Longrightarrow> ns \<noteq> [] \<Longrightarrow>
         is_mat n (r E) (Vr st') \<and> is_mat n (q E) (Vbar st') \<and>
         orthonormal_block (r E) (q E) (Vr st') (Vbar st')"
proof (induction ns arbitrary: st)
  case Nil
  then show ?case by simp
next
  case (Cons niter rest)
  from am_for_Cons_Inr[OF Cons.prems(3)] obtain brk st1 where
    body: "am_body L E niter st = Inr (brk, st1)" and
    rest: "if brk then st' = st1 else am_for L E rest st1 = Inr st'"
    by (elim exE conjE)
  note b = am_body_orthonormal[OF S Cons.prems(1,2) pos rq svd body]
  from b have sh: "is_mat (r E) k (Shat st1)" and xi: "length (Xi st1) = q E" by simp_all
  show ?case
  proof (cases brk)
    case True
    then have "st' = st1" using rest by simp
    then show ?thesis using b by simp
  next
    case False
    then have run: "am_for L E rest st1 = Inr st'" using rest by simp
    show ?thesis
    proof (cases "rest = []")
      case True
      then have "st' = st1" using run by simp
      then show ?thesis using b by simp
    next
      case False
      show ?thesis by (rule Cons.IH[OF sh xi run False])
    qed
  qed
qed

text \<open>
  C2. After every outer iteration the bases are orthonormal: for a loop started in a
  state of the data model's shapes, the state after any positive number of iterations
  (whether the loop left by \<open>break\<close> or ran out of iterations) has \<open>Vr\<^sup>T Vr = I\<close>,
  \<open>Vbar\<^sup>T Vbar = I\<close> and \<open>Vr\<^sup>T Vbar = 0\<close>, in exact arithmetic and for a library
  decomposition that is one.
\<close>

theorem bases_orthonormal_after_iterations:
  assumes "is_mat n k (S E)" "is_mat n k (Sref E)"
    and "is_mat (r E) k (Shat st)" and "length (Xi st) = q E"
    and "0 < r E" "0 < q E" "0 < k" and "r E + q E \<le> n"
    and "svd_contract L"
    and "am_for L E (niter # rest) st = Inr st'"
  shows "is_mat n (r E) (Vr st') \<and> is_mat n (q E) (Vbar st') \<and>
         orthonormal_block (r E) (q E) (Vr st') (Vbar st')"
  by (rule am_for_orthonormal[OF assms(1,2,5,6,7,8,9,3,4,10)]) simp

section \<open>The POD reconstruction and the signs of the singular vectors\<close>

lemma is_mat_flip_cols:
  "is_mat n d A \<Longrightarrow> length sg = d \<Longrightarrow> is_mat n d (flip_cols sg A)"
  by (simp add: is_mat_def flip_cols_def)

lemma flip_cols_nth:
  "is_mat n d A \<Longrightarrow> length sg = d \<Longrightarrow> i < n \<Longrightarrow> a < d \<Longrightarrow>
     flip_cols sg A ! i ! a = sg ! a * A ! i ! a"
  by (simp add: is_mat_def flip_cols_def)

lemma pod_cell_value:
  assumes S: "is_mat n k (S E)" "is_mat n k (Sref E)"
    and pos: "0 < n" "0 < r E" "0 < d"
    and U: "is_mat n d Um"
    and L: "linalg_svd L (map2 (map2 (-)) (S E) (Sref E)) = Inr (Um, sv, Vm)"
  shows "pod_cell L E st =
           Inr (st\<lparr>U := Um, ss := sv, Vr := cols_slice 0 (r E) Um,
                  Shat := mat_mul (transpose_mat (cols_slice 0 (r E) Um)) (map2 (map2 (-)) (S E) (Sref E)),
                  Gamma_POD := map2 (map2 (+)) (Sref E)
                     (mat_mul (cols_slice 0 (r E) Um)
                        (mat_mul (transpose_mat (cols_slice 0 (r E) Um)) (map2 (map2 (-)) (S E) (Sref E)))),
                  out := out st @ [ReconstructionError
                     (fdiv (frobenius_norm (map2 (map2 (-)) (S E) (map2 (map2 (+)) (Sref E)
                        (mat_mul (cols_slice 0 (r E) Um)
                          (mat_mul (transpose_mat (cols_slice 0 (r E) Um)) (map2 (map2 (-)) (S E) (Sref E)))))))
                       (frobenius_norm (map2 (map2 (-)) (S E) (Sref E))))]\<rparr>)"
proof -
  let ?C = "map2 (map2 (-)) (S E) (Sref E)"
  let ?V = "cols_slice 0 (r E) Um"
  let ?w = "min (r E) d"
  have w: "0 < ?w" using pos by simp
  have C: "elementwise (-) (S E) (Sref E) = Inr ?C" by (rule elementwise_ok[OF S])
  have Cm: "is_mat n k ?C" by (rule is_mat_map2[OF S])
  have V: "is_mat n ?w ?V" using is_mat_cols_slice[OF U, of "r E" 0] by simp
  have Vt: "is_mat ?w n (transpose_mat ?V)" using V pos by (simp add: is_mat_transpose)
  have Sh: "matmul (transpose_mat ?V) ?C = Inr (mat_mul (transpose_mat ?V) ?C)"
    by (rule matmul_ok[OF Vt Cm w])
  have Shm: "is_mat ?w k (mat_mul (transpose_mat ?V) ?C)" by (rule is_mat_mul[OF Vt Cm pos(1)])
  have VS: "matmul ?V (mat_mul (transpose_mat ?V) ?C) = Inr (mat_mul ?V (mat_mul (transpose_mat ?V) ?C))"
    by (rule matmul_ok[OF V Shm pos(1)])
  have VSm: "is_mat n k (mat_mul ?V (mat_mul (transpose_mat ?V) ?C))" by (rule is_mat_mul[OF V Shm w])
  have G: "elementwise (+) (Sref E) (mat_mul ?V (mat_mul (transpose_mat ?V) ?C))
         = Inr (map2 (map2 (+)) (Sref E) (mat_mul ?V (mat_mul (transpose_mat ?V) ?C)))"
    by (rule elementwise_ok[OF S(2) VSm])
  have Gm: "is_mat n k (map2 (map2 (+)) (Sref E) (mat_mul ?V (mat_mul (transpose_mat ?V) ?C)))"
    by (rule is_mat_map2[OF S(2) VSm])
  have R: "elementwise (-) (S E) (map2 (map2 (+)) (Sref E) (mat_mul ?V (mat_mul (transpose_mat ?V) ?C)))
         = Inr (map2 (map2 (-)) (S E) (map2 (map2 (+)) (Sref E) (mat_mul ?V (mat_mul (transpose_mat ?V) ?C))))"
    by (rule elementwise_ok[OF S(1) Gm])
  show ?thesis
    by (simp add: pod_cell_def C L Let_def Sh VS G relative_error_def R)
qed

lemma sign_sq: "\<forall>x \<in> set sg. x = 1 \<or> x = -1 \<Longrightarrow> a < length sg \<Longrightarrow> sg ! a * sg ! a = (1::real)"
  by (metis mult_minus1 mult_minus1_right mult_1 nth_mem minus_minus)

lemma projection_sign_invariant:
  assumes C: "is_mat n k C" and U: "is_mat n d Um" and pos: "0 < n" "0 < rr" "0 < d"
    and sg: "length sg = d" "\<forall>x \<in> set sg. x = 1 \<or> x = -1"
  shows "mat_mul (cols_slice 0 rr (flip_cols sg Um))
           (mat_mul (transpose_mat (cols_slice 0 rr (flip_cols sg Um))) C)
       = mat_mul (cols_slice 0 rr Um) (mat_mul (transpose_mat (cols_slice 0 rr Um)) C)"
proof -
  let ?V = "cols_slice 0 rr Um" and ?V' = "cols_slice 0 rr (flip_cols sg Um)"
  let ?w = "min rr d"
  have w: "0 < ?w" using pos by simp
  have U': "is_mat n d (flip_cols sg Um)" by (rule is_mat_flip_cols[OF U sg(1)])
  have V: "is_mat n ?w ?V" using is_mat_cols_slice[OF U, of rr 0] by simp
  have V': "is_mat n ?w ?V'" using is_mat_cols_slice[OF U', of rr 0] by simp
  have Vt: "is_mat ?w n (transpose_mat ?V)" using V pos by (simp add: is_mat_transpose)
  have Vt': "is_mat ?w n (transpose_mat ?V')" using V' pos by (simp add: is_mat_transpose)
  have Sh: "is_mat ?w k (mat_mul (transpose_mat ?V) C)" by (rule is_mat_mul[OF Vt C pos(1)])
  have Sh': "is_mat ?w k (mat_mul (transpose_mat ?V') C)" by (rule is_mat_mul[OF Vt' C pos(1)])
  have Vn: "?V' ! i ! a = sg ! a * ?V ! i ! a" if "i < n" "a < ?w" for i a
  proof -
    have "?V' ! i ! a = flip_cols sg Um ! i ! (0 + a)"
      using cols_slice_nth[OF U' that(1), of a rr 0] that(2) by simp
    also have "\<dots> = sg ! a * Um ! i ! a"
      using flip_cols_nth[OF U sg(1) that(1), of a] that(2) by simp
    also have "Um ! i ! a = ?V ! i ! a"
      using cols_slice_nth[OF U that(1), of a rr 0] that(2) by simp
    finally show ?thesis .
  qed
  have Shn: "mat_mul (transpose_mat ?V') C ! a ! j = sg ! a * mat_mul (transpose_mat ?V) C ! a ! j"
    if a: "a < ?w" and j: "j < k" for a j
  proof -
    have "mat_mul (transpose_mat ?V') C ! a ! j = (\<Sum>t<n. transpose_mat ?V' ! a ! t * C ! t ! j)"
      by (rule mat_mul_nth[OF Vt' C pos(1) a j])
    also have "\<dots> = (\<Sum>t<n. sg ! a * (transpose_mat ?V ! a ! t * C ! t ! j))"
      using a by (intro sum.cong refl) (simp add: transpose_nth[OF V'] transpose_nth[OF V] Vn)
    also have "\<dots> = sg ! a * (\<Sum>t<n. transpose_mat ?V ! a ! t * C ! t ! j)"
      by (simp add: sum_distrib_left)
    also have "(\<Sum>t<n. transpose_mat ?V ! a ! t * C ! t ! j) = mat_mul (transpose_mat ?V) C ! a ! j"
      by (rule mat_mul_nth[OF Vt C pos(1) a j, symmetric])
    finally show ?thesis .
  qed
  show ?thesis
  proof (rule mat_eqI[where n=n and m=k])
    show "is_mat n k (mat_mul ?V' (mat_mul (transpose_mat ?V') C))" by (rule is_mat_mul[OF V' Sh' w])
    show "is_mat n k (mat_mul ?V (mat_mul (transpose_mat ?V) C))" by (rule is_mat_mul[OF V Sh w])
    fix i j assume i: "i < n" and j: "j < k"
    have "mat_mul ?V' (mat_mul (transpose_mat ?V') C) ! i ! j
        = (\<Sum>a<?w. ?V' ! i ! a * mat_mul (transpose_mat ?V') C ! a ! j)"
      by (rule mat_mul_nth[OF V' Sh' w i j])
    also have "\<dots> = (\<Sum>a<?w. (sg ! a * sg ! a) * (?V ! i ! a * mat_mul (transpose_mat ?V) C ! a ! j))"
      using i j by (intro sum.cong refl) (simp add: Vn Shn)
    also have "\<dots> = (\<Sum>a<?w. ?V ! i ! a * mat_mul (transpose_mat ?V) C ! a ! j)"
      using sg by (intro sum.cong refl) (simp add: sign_sq)
    also have "\<dots> = mat_mul ?V (mat_mul (transpose_mat ?V) C) ! i ! j"
      by (rule mat_mul_nth[OF V Sh w i j, symmetric])
    finally show "mat_mul ?V' (mat_mul (transpose_mat ?V') C) ! i ! j
        = mat_mul ?V (mat_mul (transpose_mat ?V) C) ! i ! j" .
  qed
qed

text \<open>
  C9. The POD reconstruction \<open>Sref + Vr (Vr\<^sup>T (S - Sref))\<close> does not depend on the
  signs of the singular vectors: two libraries whose left singular vectors differ by
  a sign \<open>sg ! a = 1\<close> or \<open>-1\<close> on each column give bases that differ by these
  signs, and the same \<open>Gamma_POD\<close> and the same printed error.
\<close>

theorem pod_sign_invariant:
  assumes S: "is_mat n k (S E)" "is_mat n k (Sref E)"
    and pos: "0 < n" "0 < r E" "0 < d"
    and U: "is_mat n d Um"
    and sg: "length sg = d" "\<forall>x \<in> set sg. x = 1 \<or> x = -1"
    and L: "linalg_svd L (map2 (map2 (-)) (S E) (Sref E)) = Inr (Um, sv, Vm)"
    and L': "linalg_svd L' (map2 (map2 (-)) (S E) (Sref E)) = Inr (flip_cols sg Um, sv', Vm')"
  shows "\<exists>st1 st1'. pod_cell L E st = Inr st1 \<and> pod_cell L' E st = Inr st1' \<and>
           Vr st1' = flip_cols (take (r E) sg) (Vr st1) \<and>
           Gamma_POD st1' = Gamma_POD st1 \<and> out st1' = out st1"
proof -
  have U': "is_mat n d (flip_cols sg Um)" by (rule is_mat_flip_cols[OF U sg(1)])
  have C: "is_mat n k (map2 (map2 (-)) (S E) (Sref E))" by (rule is_mat_map2[OF S])
  note inv = projection_sign_invariant[OF C U pos(1,2,3) sg]
  have flip: "cols_slice 0 (r E) (flip_cols sg Um) = flip_cols (take (r E) sg) (cols_slice 0 (r E) Um)"
    by (simp add: cols_slice_def flip_cols_def take_map take_zip)
  show ?thesis
    unfolding pod_cell_value[OF S pos U L] pod_cell_value[OF S pos U' L']
    by (simp add: inv) (rule flip)
qed

section \<open>The normal equations and the order of the steps\<close>

lemma is_mat_smult: "is_mat n m A \<Longrightarrow> is_mat n m (smult c A)"
  by (simp add: is_mat_def smult_def)

lemma proj_error_ok:
  assumes S: "is_mat n k (S E)" "is_mat n k (Sref E)"
    and V: "is_mat n rr V" and Sh: "is_mat rr k Sh" and pos: "0 < n" "0 < rr"
  shows "proj_error E V Sh = Inr (map2 (map2 (-)) (map2 (map2 (-)) (S E) (Sref E)) (mat_mul V Sh))"
    and "is_mat n k (map2 (map2 (-)) (map2 (map2 (-)) (S E) (Sref E)) (mat_mul V Sh))"
proof -
  have C: "is_mat n k (map2 (map2 (-)) (S E) (Sref E))" by (rule is_mat_map2[OF S])
  have VS: "is_mat n k (mat_mul V Sh)" by (rule is_mat_mul[OF V Sh pos(2)])
  show "proj_error E V Sh = Inr (map2 (map2 (-)) (map2 (map2 (-)) (S E) (Sref E)) (mat_mul V Sh))"
    by (simp add: proj_error_def elementwise_ok[OF S] matmul_ok[OF V Sh pos(1)] elementwise_ok[OF C VS])
  show "is_mat n k (map2 (map2 (-)) (map2 (map2 (-)) (S E) (Sref E)) (mat_mul V Sh))"
    by (rule is_mat_map2[OF C VS])
qed

lemma np_identity_int: "np_identity (int m) = Inr (identity_mat m)"
  by (simp add: np_identity_def)

lemma regularised_gram_ok:
  assumes Po: "is_mat ((p E - 1) * r E) k Po" and pos: "0 < k" "2 \<le> p E" "0 < r E"
  shows "regularised_gram E Po = Inr (ridge_matrix (gamma E) ((p E - 1) * r E) Po)"
proof -
  let ?f = "(p E - 1) * r E"
  have f: "0 < ?f" using pos by simp
  have Pt: "is_mat k ?f (transpose_mat Po)" using Po f by (simp add: is_mat_transpose)
  have PP: "is_mat ?f ?f (mat_mul Po (transpose_mat Po))" by (rule is_mat_mul[OF Po Pt pos(1)])
  have "int (p E - 1) = int (p E) - 1" using pos by linarith
  then have eq: "(int (p E) - 1) * int (r E) = int ?f" by simp
  have I: "np_identity ((int (p E) - 1) * int (r E)) = Inr (identity_mat ?f)"
    by (simp only: eq np_identity_int)
  have sI: "is_mat ?f ?f (smult (gamma E) (identity_mat ?f))"
    by (rule is_mat_smult[OF is_mat_identity])
  show ?thesis
    by (simp only: regularised_gram_def matmul_ok[OF Po Pt f] I bindE_Inr elementwise_ok[OF PP sI] ridge_matrix_def)
qed


lemma objective_reads:
  "Vr st = Vr st' \<Longrightarrow> Vbar st = Vbar st' \<Longrightarrow> Xi st = Xi st' \<Longrightarrow>
     representation_learning_obj E st snapshot = representation_learning_obj E st' snapshot"
  by (rule ext) (simp add: representation_learning_obj_def)

lemma set_col_cols:
  assumes A: "is_mat n m A" and set: "set_col A j v = Inr A'"
  shows "col A' j = bcast n v" and "j' \<noteq> j \<Longrightarrow> col A' j' = col A j'"
proof -
  from set have j: "j < ncols A"
    and A': "A' = map2 (\<lambda>row x. row[j := x]) A (bcast (nrows A) v)"
    and v: "length v = nrows A \<or> length v = 1"
    by (auto simp: set_col_def split: if_splits)
  have nr: "nrows A = n" using A by (simp add: is_mat_nrows)
  have len: "length (bcast n v) = n"
    using v nr by (auto simp: bcast_def)
  have n: "0 < n" using j A by (cases A) (auto simp: ncols_def is_mat_def)
  have jm: "j < m" using j is_mat_ncols[OF A n] by simp
  have lA: "length A = n" using A by (simp add: is_mat_def)
  show "col A' j = bcast n v"
  proof (rule nth_equalityI)
    show "length (col A' j) = length (bcast n v)"
      by (simp add: col_def A' nr len lA)
  next
    fix i assume "i < length (col A' j)"
    then have i: "i < n" by (simp add: col_def A' nr len lA)
    then have "length (A ! i) = m" using A by (simp add: is_mat_def)
    then show "col A' j ! i = bcast n v ! i"
      using i jm by (simp add: col_def A' nr len lA)
  qed
  show "col A' j' = col A j'" if "j' \<noteq> j"
  proof (rule nth_equalityI)
    show "length (col A' j') = length (col A j')"
      by (simp add: col_def A' nr len lA)
  next
    fix i assume "i < length (col A' j')"
    then have i: "i < n" by (simp add: col_def A' nr len lA)
    then show "col A' j' ! i = col A j' ! i"
      using that by (simp add: col_def A' nr len lA)
  qed
qed

lemma step3_snapshots_cols:
  assumes "is_mat n m Sh" and "distinct js"
    and "step3_snapshots L E st js Sh = Inr Sh'"
  shows "(\<forall>j \<in> set js. \<exists>x.
            opt_least_squares L (representation_learning_obj E st j) (col Sh j) (1 / 10 ^ 9) = Inr x \<and>
            col Sh' j = bcast n x) \<and>
         (\<forall>j. j \<notin> set js \<longrightarrow> col Sh' j = col Sh j)"
  using assms
proof (induction js arbitrary: Sh)
  case Nil
  then show ?case by simp
next
  case (Cons j js)
  from Cons.prems(3) obtain x0 x Sh1 where
    get: "get_col Sh j = Inr x0"
    and lsq: "opt_least_squares L (representation_learning_obj E st j) x0 (1 / 10 ^ 9) = Inr x"
    and set: "set_col Sh j x = Inr Sh1"
    and rest: "step3_snapshots L E st js Sh1 = Inr Sh'"
    by (auto split: sum.splits)
  from get have x0: "x0 = col Sh j" by (auto simp: get_col_def split: if_splits)
  note cols = set_col_cols[OF Cons.prems(1) set]
  have Sh1: "is_mat n m Sh1" by (rule set_col_shape[OF Cons.prems(1) set])
  from Cons.prems(2) have d: "distinct js" and nj: "j \<notin> set js" by simp_all
  note IH = Cons.IH[OF Sh1 d rest]
  have here: "col Sh' j = bcast n x"
    using IH nj cols(1) by simp
  have others: "\<exists>x. opt_least_squares L (representation_learning_obj E st j') (col Sh j') (1 / 10 ^ 9) = Inr x \<and>
            col Sh' j' = bcast n x" if "j' \<in> set js" for j'
  proof -
    from that nj have "j' \<noteq> j" by auto
    then have "col Sh1 j' = col Sh j'" by (rule cols(2))
    then show ?thesis using IH that by auto
  qed
  have untouched: "col Sh' j' = col Sh j'" if "j' \<notin> set (j # js)" for j'
  proof -
    from that have "j' \<noteq> j" "j' \<notin> set js" by auto
    then show ?thesis using IH cols(2) by simp
  qed
  show ?case
    using here lsq x0 others untouched by auto
qed

lemma step2_Xi_value:
  assumes S: "is_mat n k (S E)" "is_mat n k (Sref E)"
    and V: "is_mat n (r E) V" and Sh: "is_mat (r E) k Sh" and Vb: "is_mat n (q E) Vb"
    and Po: "is_mat ((p E - 1) * r E) k Po"
    and pos: "0 < n" "0 < k" "0 < r E" "0 < q E" "2 \<le> p E"
    and PE: "proj_error E V Sh = Inr PE"
    and X: "step2_Xi L E Vb PE Po = Inr X"
  shows "PE = map2 (map2 (-)) (map2 (map2 (-)) (S E) (Sref E)) (mat_mul V Sh) \<and>
         (\<exists>Ainv. linalg_inv L (ridge_matrix (gamma E) ((p E - 1) * r E) Po) = Inr Ainv \<and>
            X = normal_equations_Xi (map2 (map2 (-)) (S E) (Sref E)) V Vb Sh Po Ainv)"
proof -
  note pe = proj_error_ok[OF S V Sh pos(1,3)]
  have PE': "PE = map2 (map2 (-)) (map2 (map2 (-)) (S E) (Sref E)) (mat_mul V Sh)"
    using PE pe(1) by simp
  note A = regularised_gram_ok[OF Po pos(2,5,3)]
  from X obtain Ainv t1 t2 where
    Ainv: "linalg_inv L (ridge_matrix (gamma E) ((p E - 1) * r E) Po) = Inr Ainv"
    and t: "matmul (transpose_mat Vb) PE = Inr t1" "matmul t1 (transpose_mat Po) = Inr t2"
      "matmul t2 Ainv = Inr X"
    unfolding step2_Xi_def A by (auto simp: bindE_eq_Inr)
  have "X = mat_mul (mat_mul (mat_mul (transpose_mat Vb) PE) (transpose_mat Po)) Ainv"
    using t by (auto dest!: matmul_Inr)
  then show ?thesis using PE' Ainv by (auto simp: normal_equations_Xi_def)
qed

text \<open>
  C5. Within one iteration, from a state of the data model's shapes and with a library
  decomposition that is one: step 2's \<open>Proj_error\<close> is \<open>(S - Sref) - Vr Shat\<close> with
  the \<open>Vr\<close> that step 1 has just set (the first \<open>r\<close> columns of \<open>Omega\<close>) and the
  \<open>Shat\<close> of the iteration's start; the new \<open>Xi\<close> is
  \<open>Vbar\<^sup>T Proj_error Poly\<^sup>T Ainv\<close> with the new \<open>Vbar\<close>, the \<open>Poly\<close> of the
  iteration's start and the library's inverse \<open>Ainv\<close> of the ridge matrix of that
  \<open>Poly\<close>. Step 3 then sets column \<open>j\<close> of \<open>Shat\<close>, for every snapshot \<open>j\<close>, to
  what \<open>least_squares\<close> returns for the objective with the new \<open>Vr\<close>, \<open>Vbar\<close> and
  \<open>Xi\<close>, started at the old column \<open>j\<close>; and the new \<open>Poly\<close> is the stack of the
  powers \<open>2, \<dots>, p\<close> of the new \<open>Shat\<close>.
\<close>

theorem step_order_within_iteration:
  assumes S: "is_mat n k (S E)" "is_mat n k (Sref E)"
    and Sh: "is_mat (r E) k (Shat st)" and Po: "is_mat ((p E - 1) * r E) k (Poly st)"
    and Xi: "length (Xi st) = q E"
    and pos: "0 < r E" "0 < q E" "0 < k" "2 \<le> p E" and rq: "r E + q E \<le> n"
    and svd: "svd_contract L"
    and body: "am_body L E niter st = Inr (brk, st')"
  shows "\<exists>Omega Ainv.
           procrustes_omega L E st = Inr Omega \<and>
           Vr st' = cols_slice 0 (r E) Omega \<and> Vbar st' = cols_slice (r E) (r E + q E) Omega \<and>
           proj_error E (Vr st') (Shat st) =
             Inr (map2 (map2 (-)) (map2 (map2 (-)) (S E) (Sref E)) (mat_mul (Vr st') (Shat st))) \<and>
           linalg_inv L (ridge_matrix (gamma E) ((p E - 1) * r E) (Poly st)) = Inr Ainv \<and>
           Xi st' = normal_equations_Xi (map2 (map2 (-)) (S E) (Sref E))
                      (Vr st') (Vbar st') (Shat st) (Poly st) Ainv \<and>
           is_mat (r E) k (Shat st') \<and>
           (\<forall>j < num_snapshots E. \<exists>x.
              opt_least_squares L (representation_learning_obj E st' j) (col (Shat st) j) (1 / 10 ^ 9)
                = Inr x \<and>
              col (Shat st') j = bcast (r E) x) \<and>
           (\<forall>j. num_snapshots E \<le> j \<longrightarrow> col (Shat st') j = col (Shat st) j) \<and>
           Poly st' = concat (map (\<lambda>degree. map (map (\<lambda>v. v ^ degree)) (Shat st')) [2..<p E + 1])"
proof -
  from body obtain st1 st2 st3 where
    s: "step1 L E st = Inr st1" "step2 L E st1 = Inr st2" "step3 L E st2 = Inr st3"
       "convergence_check E niter st3 = Inr (brk, st')"
    by (auto simp: am_body_def bindE_eq_Inr)
  from s(1) obtain Omega where Om: "procrustes_omega L E st = Inr Omega"
    and st1: "st1 = st\<lparr>Vr := cols_slice 0 (r E) Omega, Vbar := cols_slice (r E) (r E + q E) Omega\<rparr>"
    by (auto simp: step1_def bindE_eq_Inr)
  note o1 = step1_orthonormal[OF S Sh Xi pos(1,2,3) rq svd s(1)]
  have n: "0 < n" using pos rq by simp
  from o1 have V: "is_mat n (r E) (Vr st1)" and Vb: "is_mat n (q E) (Vbar st1)" by simp_all
  have f1: "Shat st1 = Shat st" "Poly st1 = Poly st" by (simp_all add: st1)
  from s(2) obtain PE X where PE: "proj_error E (Vr st1) (Shat st1) = Inr PE"
    and X: "step2_Xi L E (Vbar st1) PE (Poly st1) = Inr X" and st2: "st2 = st1\<lparr>Xi := X\<rparr>"
    by (auto simp: step2_def bindE_eq_Inr)
  from step2_Xi_value[OF S V Sh[folded f1(1)] Vb Po[folded f1(2)] n pos(3,1,2,4) PE X]
  obtain Ainv where
    PE': "PE = map2 (map2 (-)) (map2 (map2 (-)) (S E) (Sref E)) (mat_mul (Vr st1) (Shat st))"
    and Ainv: "linalg_inv L (ridge_matrix (gamma E) ((p E - 1) * r E) (Poly st)) = Inr Ainv"
    and X': "X = normal_equations_Xi (map2 (map2 (-)) (S E) (Sref E))
                      (Vr st1) (Vbar st1) (Shat st) (Poly st) Ainv"
    unfolding f1 by blast
  from s(3) obtain Sh' Po' where
    Sh': "step3_snapshots L E st2 [0..<num_snapshots E] (Shat st2) = Inr Sh'"
    and Po': "polynomial_features (p E) Sh' = Inr Po'"
    and st3: "st3 = st2\<lparr>Shat := Sh', Poly := Po'\<rparr>"
    by (auto simp: step3_def bindE_eq_Inr)
  from s(4) have fin: "Vr st' = Vr st3" "Vbar st' = Vbar st3" "Shat st' = Shat st3"
    "Xi st' = Xi st3" "Poly st' = Poly st3"
    by (auto simp: convergence_check_def bindE_eq_Inr Let_def split: if_splits)
  have new: "Vr st' = Vr st1" "Vbar st' = Vbar st1" "Xi st' = X" "Shat st' = Sh'" "Poly st' = Po'"
    by (simp_all add: fin st3 st2)
  have sh2: "Shat st2 = Shat st" by (simp add: st2 f1)
  have obj: "representation_learning_obj E st2 j = representation_learning_obj E st' j" for j
    by (rule objective_reads) (simp_all add: new st2)
  note cols = step3_snapshots_cols[OF Sh distinct_upt Sh'[unfolded sh2], unfolded obj]
  have shape: "is_mat (r E) k Sh'"
    by (rule step3_snapshots_shape[OF Sh Sh'[unfolded sh2]])
  have poly: "Po' = concat (map (\<lambda>degree. map (map (\<lambda>v. v ^ degree)) Sh') [2..<p E + 1])"
    using Po' polynomial_features_ok[OF pos(4), of Sh'] by (simp add: polynomial_form_def)
  have pe: "proj_error E (Vr st') (Shat st) =
             Inr (map2 (map2 (-)) (map2 (map2 (-)) (S E) (Sref E)) (mat_mul (Vr st') (Shat st)))"
    using PE PE' by (simp add: new f1)
  show ?thesis
    apply (rule exI[of _ Omega])
    apply (rule exI[of _ Ainv])
    unfolding new
    using Om Ainv X' shape cols poly pe[unfolded new]
    by (simp add: st1)
qed

section \<open>Degenerate input\<close>













section \<open>Runs on the sample inputs\<close>

lemmas array_defs = elementwise_def elementwise1_def compatible_def bdim_def bcast_def
  nrows_def ncols_def matmul_def mat_mul_def matvec_def dot_def col_def transpose_mat_def
  cols_slice_def get_col_def set_col_def concatenate_def concatenate1_def
  identity_mat_def np_identity_def smult_def sumsq_def fdiv_def
  polynomial_form_def polynomial_form1_def polynomial_features_def Let_def
  power2_eq_square

lemmas cell_defs = notebook_def pod_cell_def mpod_cell_def am_cell_def am_loop_def
  am_body_def step1_def step2_def step3_def procrustes_omega_def procrustes_target_def
  proj_error_def regularised_gram_def mpod_Xi_def step2_Xi_def manifold_reconstruction_def
  energy_def convergence_check_def relative_error_def frobenius_norm_def unbound_def

lemmas sample_defs = sample_lib_def sample_env_def sample_svd_def sample_inv_def
  sample_least_squares_def representation_learning_obj_def sample_seed_def

lemmas degenerate_defs = sample_lib_def sample_svd_def sample_inv_def
  sample_least_squares_def representation_learning_obj_def
  degenerate_env_def degenerate_seed_def few_samples_env_def

lemmas moving_defs = moving_env_def moving_start_def moving_least_squares_def moving_lib_def
  moving_end_def representation_learning_obj_def

lemma sqrt_9_4: "sqrt (9 / 4) = 3 / 2"
  by (rule real_sqrt_unique) (simp_all add: power2_eq_square)

lemma sqrt_25_4: "sqrt (25 / 4) = 5 / 2"
  by (rule real_sqrt_unique) (simp_all add: power2_eq_square)

lemma sample_cells_1_2:
  "bindE (pod_cell sample_lib sample_env unbound) (mpod_cell sample_lib sample_env) = Inr sample_seed"
  by (simp add: cell_defs sample_defs array_defs sqrt_9_4 sqrt_25_4)

lemma degenerate_cells_1_2:
  "bindE (pod_cell sample_lib degenerate_env unbound) (mpod_cell sample_lib degenerate_env)
     = Inr degenerate_seed"
  by (simp add: cell_defs degenerate_defs array_defs)

text \<open>
  In each data set \<open>sref\<close> is \<open>np.mean(S, axis=1)\<close> and \<open>Sref\<close> is
  \<open>np.array([sref,] * num_snapshots).T\<close>, as the notebook's data cell sets them.
\<close>

lemma sample_reference_is_mean:
  "sref sample_env = map (\<lambda>row. sum_list row / real (length row)) (S sample_env)"
  "Sref sample_env = map (replicate (num_snapshots sample_env)) (sref sample_env)"
  by (simp_all add: sample_defs eval_nat_numeral)

lemma degenerate_reference_is_mean:
  "sref degenerate_env = map (\<lambda>row. sum_list row / real (length row)) (S degenerate_env)"
  "Sref degenerate_env = map (replicate (num_snapshots degenerate_env)) (sref degenerate_env)"
  "sref few_samples_env = map (\<lambda>row. sum_list row / real (length row)) (S few_samples_env)"
  "Sref few_samples_env = map (replicate (num_snapshots few_samples_env)) (sref few_samples_env)"
  by (simp_all add: degenerate_defs eval_nat_numeral)

lemma sample_svd_contract: "svd_contract sample_lib"
  unfolding svd_contract_def
proof (intro allI impI)
  fix M Um sv Vm
  assume "linalg_svd sample_lib M = Inr (Um, sv, Vm)"
  then consider
      "M = [[1, -1, 1, -1], [3/4, 3/4, -3/4, -3/4]]" "Um = [[1, 0], [0, 1]]" "sv = [2, 3/2]"
        "Vm = [[1/2, -1/2, 1/2, -1/2], [1/2, 1/2, -1/2, -1/2]]"
    | "M = [[4, 0], [0, 0]]" "Um = [[1, 0], [0, 1]]" "sv = [4, 0]" "Vm = [[1, 0], [0, 1]]"
    | "M = [[0, 0], [0, 0]]" "Um = [[1, 0], [0, 1]]" "sv = [0, 0]" "Vm = [[1, 0], [0, 1]]"
    | "M = [[1, -1], [0, 0]]" "Um = [[1, 0], [0, 1]]" "sv = [sqrt 2, 0]"
        "Vm = [[1 / sqrt 2, - (1 / sqrt 2)], [1 / sqrt 2, 1 / sqrt 2]]"
    | "M = [[2, 0], [0, 0]]" "Um = [[1, 0], [0, 1]]" "sv = [2, 0]" "Vm = [[1, 0], [0, 1]]"
    by (auto simp: sample_lib_def sample_svd_def split: if_splits)
  then show "thin_svd M Um sv Vm"
  proof cases
    case 1
    then show ?thesis
      by (simp add: thin_svd_def is_mat_def diag_mat_def array_defs)
  next
    case 2
    then show ?thesis
      by (simp add: thin_svd_def is_mat_def diag_mat_def array_defs)
  next
    case 3
    then show ?thesis
      by (simp add: thin_svd_def is_mat_def diag_mat_def array_defs)
  next
    case 4
    then show ?thesis
      by (simp add: thin_svd_def is_mat_def diag_mat_def array_defs)
  next
    case 5
    then show ?thesis
      by (simp add: thin_svd_def is_mat_def diag_mat_def array_defs)
  qed
qed


lemma sample_loop:
  "am_loop sample_lib sample_env sample_seed =
     Inr (sample_seed\<lparr>nrg_old := Finite (16/25),
            out := out sample_seed @ [Starting, Iteration 1 (Finite (16/25)) (Finite (16/25)),
                     Iteration 2 (Finite (16/25)) (Finite 0), ConvergenceActive]\<rparr>)"
  by (simp add: cell_defs sample_defs array_defs sqrt_9_4 sqrt_25_4 eval_nat_numeral)

lemma sample_loop_one_iteration:
  "am_loop sample_lib (sample_env\<lparr>max_iter := 1\<rparr>) sample_seed =
     Inr (sample_seed\<lparr>nrg_old := Finite (16/25),
            out := out sample_seed @ [Starting, Iteration 1 (Finite (16/25)) (Finite (16/25))]\<rparr>)"
  by (simp add: cell_defs sample_defs array_defs sqrt_9_4 sqrt_25_4 eval_nat_numeral)


lemma sample_shapes:
  "is_mat 2 4 (S sample_env)" "is_mat 2 4 (Sref sample_env)"
  "is_mat (r sample_env) 4 (Shat sample_seed)" "length (Xi sample_seed) = q sample_env"
  "0 < r sample_env" "0 < q sample_env" "r sample_env + q sample_env \<le> 2"
  "2 \<le> p sample_env"
  "is_mat 2 (r sample_env) (Vr sample_seed)" "is_mat 2 (q sample_env) (Vbar sample_seed)"
  "is_mat ((p sample_env - 1) * r sample_env) 4 (Poly sample_seed)"
  by (simp_all add: sample_defs is_mat_def)

lemma sample_step1:
  "step1 sample_lib sample_env sample_seed = Inr sample_seed"
  by (simp add: cell_defs sample_defs array_defs)

theorem step1_procrustes_witness:
  "step1 sample_lib sample_env sample_seed = Inr sample_seed \<and>
   procrustes_residual [[1, -1, 1, -1], [3/4, 3/4, -3/4, -3/4]] [[1, 0], [0, 1]]
       [[1, -1, 1, -1], [0, 0, 0, 0]]
     \<le> procrustes_residual [[1, -1, 1, -1], [3/4, 3/4, -3/4, -3/4]] [[0, 1], [1, 0]]
       [[1, -1, 1, -1], [0, 0, 0, 0]]"
proof -
  have k: "0 < (4::nat)" by simp
  from step1_procrustes[OF sample_shapes(1,2,3,4,5,6) k sample_shapes(7) sample_svd_contract sample_step1]
  obtain XP Um sv Vm where
    XP: "matmul (Xi sample_seed) (Poly sample_seed) = Inr XP"
    and lib: "linalg_svd sample_lib (mat_mul (map2 (map2 (-)) (S sample_env) (Sref sample_env))
                 (transpose_mat (Shat sample_seed @ XP))) = Inr (Um, sv, Vm)"
    and best: "\<forall>W. is_mat 2 (r sample_env + q sample_env) W \<and> orthonormal_cols W \<longrightarrow>
              procrustes_residual (map2 (map2 (-)) (S sample_env) (Sref sample_env)) (mat_mul Um Vm)
                 (Shat sample_seed @ XP)
              \<le> procrustes_residual (map2 (map2 (-)) (S sample_env) (Sref sample_env)) W
                 (Shat sample_seed @ XP)"
    by blast
  have XP': "XP = [[0, 0, 0, 0]]"
    using XP by (simp add: sample_defs array_defs)
  have C: "map2 (map2 (-)) (S sample_env) (Sref sample_env) = [[1, -1, 1, -1], [3/4, 3/4, -3/4, -3/4]]"
    by (simp add: sample_defs)
  have T: "Shat sample_seed @ XP = [[1, -1, 1, -1], [0, 0, 0, 0]]"
    by (simp add: XP' sample_defs)
  have UV: "Um = [[1, 0], [0, 1]] \<and> Vm = [[1, 0], [0, 1]]"
    using lib unfolding C T by (auto simp add: sample_defs array_defs)
  have Om: "mat_mul Um Vm = [[1, 0], [0, 1]]"
    using UV by (simp add: array_defs)
  have W: "is_mat 2 (r sample_env + q sample_env) [[0, 1], [1, 0]] \<and> orthonormal_cols [[0, 1], [1, 0]]"
    by (simp add: is_mat_def orthonormal_cols_def sample_defs array_defs)
  from best[rule_format, OF W] show ?thesis
    unfolding C T Om using sample_step1 by simp
qed

theorem bases_orthonormal_after_iterations_witness:
  "am_for sample_lib sample_env [0, 1] (sample_seed\<lparr>out := out sample_seed @ [Starting]\<rparr>)
     = Inr (sample_seed\<lparr>nrg_old := Finite (16/25),
            out := out sample_seed @ [Starting, Iteration 1 (Finite (16/25)) (Finite (16/25)),
                     Iteration 2 (Finite (16/25)) (Finite 0), ConvergenceActive]\<rparr>) \<and>
   orthonormal_block 1 1 [[1], [0]] [[0], [1]]"
proof -
  let ?st0 = "sample_seed\<lparr>out := out sample_seed @ [Starting]\<rparr>"
  let ?st' = "sample_seed\<lparr>nrg_old := Finite (16/25),
            out := out sample_seed @ [Starting, Iteration 1 (Finite (16/25)) (Finite (16/25)),
                     Iteration 2 (Finite (16/25)) (Finite 0), ConvergenceActive]\<rparr>"
  have run: "am_for sample_lib sample_env (0 # [1]) ?st0 = Inr ?st'"
    using sample_loop by (simp add: am_loop_def sample_defs eval_nat_numeral)
  have sh: "is_mat (r sample_env) 4 (Shat ?st0)" "length (Xi ?st0) = q sample_env"
    using sample_shapes(3,4) by simp_all
  have k: "0 < (4::nat)" by simp
  from bases_orthonormal_after_iterations[OF sample_shapes(1,2) sh sample_shapes(5,6) k
      sample_shapes(7) sample_svd_contract run]
  have "orthonormal_block (r sample_env) (q sample_env) (Vr ?st') (Vbar ?st')" by simp
  then have "orthonormal_block 1 1 [[1], [0]] [[0], [1]]"
    by (simp add: sample_defs)
  then show ?thesis using run by simp
qed

theorem outer_loop_bounded_witness:
  "\<exists>es. length es \<le> 2 \<and>
     out sample_seed @ [Starting, Iteration 1 (Finite (16/25)) (Finite (16/25)),
                     Iteration 2 (Finite (16/25)) (Finite 0), ConvergenceActive]
       = out sample_seed @ Starting # iteration_lines (Finite 0) [0..<2] es @
             (if es \<noteq> [] \<and> fless (last (diffs_from (Finite 0) es)) (1/1000)
              then [ConvergenceActive] else [])"
proof -
  from outer_loop_bounded[OF sample_loop] obtain es where
    "length es \<le> max_iter sample_env"
    "out (sample_seed\<lparr>nrg_old := Finite (16/25),
            out := out sample_seed @ [Starting, Iteration 1 (Finite (16/25)) (Finite (16/25)),
                     Iteration 2 (Finite (16/25)) (Finite 0), ConvergenceActive]\<rparr>)
       = out sample_seed @ Starting # iteration_lines (Finite 0) [0..<max_iter sample_env] es @
             (if es \<noteq> [] \<and> fless (last (diffs_from (Finite 0) es)) (tol sample_env)
              then [ConvergenceActive] else [])"
    by blast
  then show ?thesis
    by (intro exI[of _ es]) (simp add: sample_env_def)
qed

theorem first_iteration_against_zero_witness:
  "am_loop sample_lib (sample_env\<lparr>tol := 1\<rparr>) sample_seed =
     Inr (sample_seed\<lparr>out := out sample_seed @
            [Starting, Iteration 1 (Finite (16/25)) (Finite (16/25)), ConvergenceActive]\<rparr>)"
proof -
  let ?E = "sample_env\<lparr>tol := 1\<rparr>"
  let ?st0 = "sample_seed\<lparr>nrg_old := Finite 0, out := out sample_seed @ [Starting]\<rparr>"
  have m: "0 < max_iter ?E" by (simp add: sample_defs)
  have s1: "step1 sample_lib ?E ?st0 = Inr ?st0"
    by (simp add: cell_defs sample_defs array_defs)
  have s2: "step2 sample_lib ?E ?st0 = Inr ?st0"
    by (simp add: cell_defs sample_defs array_defs)
  have s3: "step3 sample_lib ?E ?st0 = Inr ?st0"
    by (simp add: cell_defs sample_defs array_defs eval_nat_numeral)
  have e: "energy ?E ?st0 = Inr (Finite (16/25))"
    by (simp add: cell_defs sample_defs array_defs sqrt_9_4 sqrt_25_4)
  have t: "16/25 < tol ?E" by (simp add: sample_defs)
  from first_iteration_against_zero[OF m s1 s2 s3 e t] show ?thesis
    by (simp add: sample_defs)
qed

lemma moving_svd_contract: "svd_contract moving_lib"
  unfolding svd_contract_def
proof (intro allI impI)
  fix M Um sv Vm
  assume "linalg_svd moving_lib M = Inr (Um, sv, Vm)"
  then have "M = [[2, 0], [0, 1]]" "Um = [[1, 0], [0, 1]]" "sv = [2, 1]" "Vm = [[1, 0], [0, 1]]"
    by (auto simp: moving_lib_def split: if_splits)
  then show "thin_svd M Um sv Vm"
    by (simp add: thin_svd_def is_mat_def diag_mat_def array_defs)
qed

lemma moving_inv_contract: "inv_contract moving_lib"
  unfolding inv_contract_def
proof (intro allI impI)
  fix A B
  assume "linalg_inv moving_lib A = Inr B"
  then have "A = [[2]]" "B = [[1/2]]"
    by (auto simp: moving_lib_def split: if_splits)
  then show "is_inverse A B"
    by (simp add: is_inverse_def is_mat_def array_defs)
qed

lemma moving_body:
  "am_body moving_lib moving_env 0 (loop_entry moving_start) = Inr (False, moving_end)"
  by (simp add: loop_entry_def cell_defs moving_defs array_defs eval_nat_numeral)

lemma moving_shapes:
  "is_mat 2 4 (S moving_env)" "is_mat 2 4 (Sref moving_env)"
  "is_mat (r moving_env) 4 (Shat (loop_entry moving_start))"
  "is_mat ((p moving_env - 1) * r moving_env) 4 (Poly (loop_entry moving_start))"
  "length (Xi (loop_entry moving_start)) = q moving_env"
  "0 < r moving_env" "0 < q moving_env" "0 < (4::nat)" "2 \<le> p moving_env"
  "r moving_env + q moving_env \<le> 2"
  by (simp_all add: moving_defs is_mat_def)

text \<open>
  Each value that \<open>moving_least_squares\<close> returns in that iteration minimises the
  snapshot's objective, the one with the new \<open>Vr\<close>, \<open>Vbar\<close> and \<open>Xi\<close>.
\<close>

lemma quartic_bound:
  "2 \<le> (2 - x) * (2 - x) + (- (1 / 2) - x * x / 2) * (- (1 / 2) - x * x / 2)"
  "2 \<le> (- 2 - x) * (- 2 - x) + (- (1 / 2) - x * x / 2) * (- (1 / 2) - x * x / 2)"
  for x :: real
proof -
  have "(2 - x) * (2 - x) + (- (1 / 2) - x * x / 2) * (- (1 / 2) - x * x / 2) - 2
          = (x - 1)\<^sup>2 * ((x + 1)\<^sup>2 + 8) / 4"
    by (simp add: power2_eq_square algebra_simps)
  moreover have "0 \<le> (x - 1)\<^sup>2 * ((x + 1)\<^sup>2 + 8) / 4"
    by (intro divide_nonneg_nonneg mult_nonneg_nonneg add_nonneg_nonneg) simp_all
  ultimately show "2 \<le> (2 - x) * (2 - x) + (- (1 / 2) - x * x / 2) * (- (1 / 2) - x * x / 2)"
    by linarith
  have "(- 2 - x) * (- 2 - x) + (- (1 / 2) - x * x / 2) * (- (1 / 2) - x * x / 2) - 2
          = (x + 1)\<^sup>2 * ((x - 1)\<^sup>2 + 8) / 4"
    by (simp add: power2_eq_square algebra_simps)
  moreover have "0 \<le> (x + 1)\<^sup>2 * ((x - 1)\<^sup>2 + 8) / 4"
    by (intro divide_nonneg_nonneg mult_nonneg_nonneg add_nonneg_nonneg) simp_all
  ultimately show "2 \<le> (- 2 - x) * (- 2 - x) + (- (1 / 2) - x * x / 2) * (- (1 / 2) - x * x / 2)"
    by linarith
qed

lemma moving_least_squares_minimises:
  assumes "snapshot < 4"
  shows "\<exists>res res1.
           moving_least_squares (representation_learning_obj moving_env moving_end snapshot)
             [Shat moving_start ! 0 ! snapshot] (1 / 10 ^ 9) = Inr [Shat moving_end ! 0 ! snapshot] \<and>
           representation_learning_obj moving_env moving_end snapshot [x] = Inr res \<and>
           representation_learning_obj moving_env moving_end snapshot
             [Shat moving_end ! 0 ! snapshot] = Inr res1 \<and>
           sum_list (map (\<lambda>v. v\<^sup>2) res1) \<le> sum_list (map (\<lambda>v. v\<^sup>2) res)"
proof -
  from assms consider "snapshot = 0" | "snapshot = 1" | "snapshot = 2" | "snapshot = 3"
    by linarith
  then show ?thesis
  proof cases
    case 1
    then show ?thesis by (simp add: moving_defs array_defs)
  next
    case 2
    then show ?thesis by (simp add: moving_defs array_defs)
  next
    case 3
    then show ?thesis 
      by (simp add: moving_defs array_defs eval_nat_numeral quartic_bound)
  next
    case 4
    then show ?thesis
      by (simp add: moving_defs array_defs eval_nat_numeral quartic_bound)
  qed
qed

lemma moving_cell:
  "printed (am_cell moving_lib moving_env moving_start) =
     Inr [Starting, Iteration 1 (Finite (5/11)) (Finite (5/11)),
          ReconstructionError (Finite (2 / sqrt 11))]"
  by (simp add: printed_def cell_defs moving_defs array_defs eval_nat_numeral)

theorem budget_exhausted_silently_witness:
  "am_loop moving_lib moving_env moving_start = Inr moving_end \<and>
   (\<exists>es. length es = 1 \<and>
      out moving_end = out moving_start @ Starting # iteration_lines (Finite 0) [0..<1] es) \<and>
   am_cell moving_lib moving_env moving_start =
     bindE (manifold_reconstruction moving_env moving_end) (\<lambda>G.
     bindE (relative_error moving_env (S moving_env) G) (\<lambda>err.
     Inr (moving_end\<lparr>Gamma_MAM := G, out := out moving_end @ [ReconstructionError err]\<rparr>)))"
proof -
  have run: "runs_without_break moving_lib moving_env 0 (loop_entry moving_start) [moving_end]"
    using moving_body by simp
  have len: "length [moving_end] = max_iter moving_env"
    by (simp add: moving_env_def)
  from budget_exhausted_silently[OF run len] obtain es where
    ret: "am_loop moving_lib moving_env moving_start = Inr (last [loop_entry moving_start, moving_end])"
    and es: "length es = max_iter moving_env"
      "out (last [loop_entry moving_start, moving_end]) =
         out moving_start @ Starting # iteration_lines (Finite 0) [0..<max_iter moving_env] es"
    and cell: "am_cell moving_lib moving_env moving_start =
           bindE (manifold_reconstruction moving_env (last [loop_entry moving_start, moving_end])) (\<lambda>G.
           bindE (relative_error moving_env (S moving_env) G) (\<lambda>err.
           Inr ((last [loop_entry moving_start, moving_end])\<lparr>Gamma_MAM := G,
                  out := out (last [loop_entry moving_start, moving_end]) @ [ReconstructionError err]\<rparr>)))"
    by blast
  have m: "max_iter moving_env = 1" by (simp add: moving_env_def)
  have a: "am_loop moving_lib moving_env moving_start = Inr moving_end"
    using ret by simp
  have b: "\<exists>es. length es = 1 \<and>
      out moving_end = out moving_start @ Starting # iteration_lines (Finite 0) [0..<1] es"
    using es unfolding m by (intro exI[of _ es]) simp
  have c: "am_cell moving_lib moving_env moving_start =
     bindE (manifold_reconstruction moving_env moving_end) (\<lambda>G.
     bindE (relative_error moving_env (S moving_env) G) (\<lambda>err.
     Inr (moving_end\<lparr>Gamma_MAM := G, out := out moving_end @ [ReconstructionError err]\<rparr>)))"
    using cell by simp
  show ?thesis by (intro conjI; fact a b c)
qed

theorem exhausted_budget_counterexample:
  "printed (notebook sample_lib (sample_env\<lparr>max_iter := 1\<rparr>)) =
     Inr [ReconstructionError (Finite (3/5)), ReconstructionError (Finite (3/5)),
          Starting, Iteration 1 (Finite (16/25)) (Finite (16/25)),
          ReconstructionError (Finite (3/5))]"
  by (simp add: printed_def cell_defs sample_defs array_defs sqrt_9_4 sqrt_25_4 eval_nat_numeral)



theorem step_order_within_iteration_witness:
  "am_body moving_lib moving_env 0 (loop_entry moving_start) = Inr (False, moving_end) \<and>
   Vr moving_start = [[0], [1]] \<and> Vr moving_end = [[1], [0]] \<and>
   Vbar moving_start = [[1], [0]] \<and> Vbar moving_end = [[0], [1]] \<and>
   Shat moving_start = [[1, -1, 0, 0]] \<and> Shat moving_end = [[1, -1, 1, -1]] \<and>
   Poly moving_start = [[1, 1, 0, 0]] \<and> Poly moving_end = [[1, 1, 1, 1]] \<and>
   proj_error moving_env [[1], [0]] [[1, -1, 0, 0]] = Inr [[0, 0, 2, -2], [1/2, 1/2, -1/2, -1/2]] \<and>
   (\<exists>Ainv. linalg_inv moving_lib (ridge_matrix 0 1 [[1, 1, 0, 0]]) = Inr Ainv \<and>
      Xi moving_end = normal_equations_Xi [[1, -1, 2, -2], [1/2, 1/2, -1/2, -1/2]]
                        [[1], [0]] [[0], [1]] [[1, -1, 0, 0]] [[1, 1, 0, 0]] Ainv) \<and>
   Xi moving_end = [[1/2]] \<and>
   (\<exists>x. opt_least_squares moving_lib (representation_learning_obj moving_env moving_end 2) [0] (1 / 10 ^ 9)
           = Inr x \<and> [1] = bcast 1 x) \<and>
   Poly moving_end = concat (map (\<lambda>degree. map (map (\<lambda>v. v ^ degree)) (Shat moving_end)) [2..<3])"
proof -
  from step_order_within_iteration[OF moving_shapes moving_svd_contract moving_body]
  obtain Omega Ainv where
    pe: "proj_error moving_env (Vr moving_end) (Shat (loop_entry moving_start)) =
       Inr (map2 (map2 (-)) (map2 (map2 (-)) (S moving_env) (Sref moving_env))
              (mat_mul (Vr moving_end) (Shat (loop_entry moving_start))))"
    and inv: "linalg_inv moving_lib (ridge_matrix (gamma moving_env)
               ((p moving_env - 1) * r moving_env) (Poly (loop_entry moving_start))) = Inr Ainv"
    and xi: "Xi moving_end = normal_equations_Xi (map2 (map2 (-)) (S moving_env) (Sref moving_env))
                      (Vr moving_end) (Vbar moving_end) (Shat (loop_entry moving_start))
                      (Poly (loop_entry moving_start)) Ainv"
    and cols: "\<forall>j < num_snapshots moving_env. \<exists>x.
              opt_least_squares moving_lib (representation_learning_obj moving_env moving_end j)
                (col (Shat (loop_entry moving_start)) j) (1 / 10 ^ 9) = Inr x \<and>
              col (Shat moving_end) j = bcast (r moving_env) x"
    and poly: "Poly moving_end = concat (map (\<lambda>degree. map (map (\<lambda>v. v ^ degree)) (Shat moving_end))
                 [2..<p moving_env + 1])"
    by blast
  have two: "2 < num_snapshots moving_env" by (simp add: moving_env_def)
  from cols[rule_format, OF two] obtain x where
    x: "opt_least_squares moving_lib (representation_learning_obj moving_env moving_end 2)
                (col (Shat (loop_entry moving_start)) 2) (1 / 10 ^ 9) = Inr x"
       "col (Shat moving_end) 2 = bcast (r moving_env) x"
    by blast
  have vals: "gamma moving_env = 0" "p moving_env = 2"
    "Poly moving_start = [[1, 1, 0, 0]]" "Shat moving_start = [[1, -1, 0, 0]]"
    "Vr moving_end = [[1], [0]]" "Vbar moving_end = [[0], [1]]"
    "map2 (map2 (-)) (S moving_env) (Sref moving_env) = [[1, -1, 2, -2], [1/2, 1/2, -1/2, -1/2]]"
    "r moving_env = 1" "Shat moving_end = [[1, -1, 1, -1]]"
    "Poly moving_end = [[1, 1, 1, 1]]"
    "col [[1, -1, 0, 0]] 2 = [0::real]" "col [[1, -1, 1, -1]] 2 = [1::real]"
    by (simp_all add: moving_defs col_def)
  have pe': "proj_error moving_env [[1], [0]] [[1, -1, 0, 0]] = Inr [[0, 0, 2, -2], [1/2, 1/2, -1/2, -1/2]]"
    using pe by (simp add: vals mat_mul_def dot_def col_def ncols_def eval_nat_numeral)
  have xi': "\<exists>Ainv. linalg_inv moving_lib (ridge_matrix 0 1 [[1, 1, 0, 0]]) = Inr Ainv \<and>
      Xi moving_end = normal_equations_Xi [[1, -1, 2, -2], [1/2, 1/2, -1/2, -1/2]]
                        [[1], [0]] [[0], [1]] [[1, -1, 0, 0]] [[1, 1, 0, 0]] Ainv"
    using inv xi by (simp add: vals)
  have x': "\<exists>x. opt_least_squares moving_lib (representation_learning_obj moving_env moving_end 2) [0] (1 / 10 ^ 9)
           = Inr x \<and> [1] = bcast 1 x"
    using x by (auto simp: vals)
  have three: "p moving_env + 1 = 3" by (simp add: moving_env_def)
  have poly': "Poly moving_end =
      concat (map (\<lambda>degree. map (map (\<lambda>v. v ^ degree)) (Shat moving_end)) [2..<3])"
    using poly unfolding three .
  have start: "Vr moving_start = [[0], [1]]" "Vbar moving_start = [[1], [0]]"
    "Shat moving_start = [[1, -1, 0, 0]]" "Poly moving_start = [[1, 1, 0, 0]]"
    by (simp_all add: moving_start_def)
  have fin: "Vr moving_end = [[1], [0]]" "Vbar moving_end = [[0], [1]]"
    "Shat moving_end = [[1, -1, 1, -1]]" "Poly moving_end = [[1, 1, 1, 1]]" "Xi moving_end = [[1/2]]"
    by (simp_all add: moving_end_def)
  show ?thesis
    by (intro conjI; fact moving_body start fin pe' xi' x' poly')
qed

theorem pod_sign_invariant_witness:
  "\<exists>st1 st1'. pod_cell sample_lib sample_env unbound = Inr st1 \<and>
     pod_cell sample_lib_flipped sample_env unbound = Inr st1' \<and>
     Vr st1' = flip_cols [-1] (Vr st1) \<and> Gamma_POD st1' = Gamma_POD st1 \<and> out st1' = out st1"
proof -
  have U: "is_mat 2 2 [[1, 0], [0, 1 :: real]]" by (simp add: is_mat_def)
  have sg: "length [-1, 1 :: real] = 2" "\<forall>x \<in> set [-1, 1 :: real]. x = 1 \<or> x = -1" by simp_all
  have pos: "0 < (2::nat)" by simp
  have L: "linalg_svd sample_lib (map2 (map2 (-)) (S sample_env) (Sref sample_env))
             = Inr ([[1, 0], [0, 1]], [2, 3/2], [[1/2, -1/2, 1/2, -1/2], [1/2, 1/2, -1/2, -1/2]])"
    by (simp add: sample_defs)
  have L': "linalg_svd sample_lib_flipped (map2 (map2 (-)) (S sample_env) (Sref sample_env))
             = Inr (flip_cols [-1, 1] [[1, 0], [0, 1]], [2, 3/2],
                    flip_rows [-1, 1] [[1/2, -1/2, 1/2, -1/2], [1/2, 1/2, -1/2, -1/2]])"
    by (simp add: sample_lib_flipped_def sample_defs)
  from pod_sign_invariant[OF sample_shapes(1,2) pos sample_shapes(5) pos U sg L L', of unbound]
  show ?thesis by (simp add: sample_env_def)
qed

lemma sample_flipped_svd_contract: "svd_contract sample_lib_flipped"
  unfolding svd_contract_def
proof (intro allI impI)
  fix M Um sv Vm
  assume "linalg_svd sample_lib_flipped M = Inr (Um, sv, Vm)"
  then consider
      "M = [[1, -1, 1, -1], [3/4, 3/4, -3/4, -3/4]]" "Um = [[-1, 0], [0, 1]]" "sv = [2, 3/2]"
        "Vm = [[-1/2, 1/2, -1/2, 1/2], [1/2, 1/2, -1/2, -1/2]]"
    | "M = [[4, 0], [0, 0]]" "Um = [[-1, 0], [0, 1]]" "sv = [4, 0]" "Vm = [[-1, 0], [0, 1]]"
    | "M = [[0, 0], [0, 0]]" "Um = [[-1, 0], [0, 1]]" "sv = [0, 0]" "Vm = [[-1, 0], [0, 1]]"
    | "M = [[1, -1], [0, 0]]" "Um = [[-1, 0], [0, 1]]" "sv = [sqrt 2, 0]"
        "Vm = [[- (1 / sqrt 2), 1 / sqrt 2], [1 / sqrt 2, 1 / sqrt 2]]"
    | "M = [[2, 0], [0, 0]]" "Um = [[-1, 0], [0, 1]]" "sv = [2, 0]" "Vm = [[-1, 0], [0, 1]]"
    by (auto simp: sample_lib_flipped_def sample_lib_def sample_svd_def flip_cols_def flip_rows_def
          split: if_splits)
  then show "thin_svd M Um sv Vm"
    by cases (simp_all add: thin_svd_def is_mat_def diag_mat_def array_defs)
qed

text \<open>
  On the sample data the starting point of each snapshot minimises the snapshot's
  objective, so an exact least-squares solver returns it. The same holds on the equal
  snapshots and on the two different snapshots, whose runs have the bases and the
  coefficients of \<open>degenerate_seed\<close> in every call of the objective.
\<close>

lemma sample_start_minimises:
  assumes "snapshot < 4"
  shows "\<exists>res res0.
           representation_learning_obj sample_env sample_seed snapshot [x] = Inr res \<and>
           representation_learning_obj sample_env sample_seed snapshot
             [Shat sample_seed ! 0 ! snapshot] = Inr res0 \<and>
           sum_list (map (\<lambda>v. v\<^sup>2) res0) \<le> sum_list (map (\<lambda>v. v\<^sup>2) res)"
proof -
  from assms consider "snapshot = 0" | "snapshot = 1" | "snapshot = 2" | "snapshot = 3"
    by linarith
  then show ?thesis
    by cases (simp_all add: representation_learning_obj_def sample_defs array_defs)
qed

lemma degenerate_start_minimises:
  assumes "snapshot < 2"
  shows "\<exists>res res0.
           representation_learning_obj degenerate_env degenerate_seed snapshot [x] = Inr res \<and>
           representation_learning_obj degenerate_env degenerate_seed snapshot
             [Shat degenerate_seed ! 0 ! snapshot] = Inr res0 \<and>
           sum_list (map (\<lambda>v. v\<^sup>2) res0) \<le> sum_list (map (\<lambda>v. v\<^sup>2) res)"
proof -
  from assms consider "snapshot = 0" | "snapshot = 1"
    by linarith
  then show ?thesis
    by cases (simp_all add: representation_learning_obj_def degenerate_defs array_defs)
qed

lemma few_samples_start_minimises:
  assumes "snapshot < 2"
  shows "\<exists>res res0.
           representation_learning_obj few_samples_env degenerate_seed snapshot [x] = Inr res \<and>
           representation_learning_obj few_samples_env degenerate_seed snapshot
             [S few_samples_env ! 0 ! snapshot] = Inr res0 \<and>
           sum_list (map (\<lambda>v. v\<^sup>2) res0) \<le> sum_list (map (\<lambda>v. v\<^sup>2) res)"
proof -
  from assms consider "snapshot = 0" | "snapshot = 1"
    by linarith
  then show ?thesis
    by cases (simp_all add: representation_learning_obj_def degenerate_defs array_defs)
qed






end
